theory Spec2Isabelle
  imports Complex_Main "HOL-Library.Product_Lexorder" "HOL-Library.Sublist" "HOL-Library.AList"
begin

section \<open>The solar-plant dashboard (app.py): data model\<close>

text \<open>
  The script is a pipeline of pandas calls. Each call is embedded as a HOL function
  that computes what the call computes, on the following data:
  \<^item> a calendar date is a triple (year, month, day), a timestamp adds (hour, minute);
    both are ordered lexicographically, which is their chronological order;
  \<^item> a missing value (\<open>NaN\<close>, \<open>NaT\<close>, \<open>None\<close>) is \<open>None\<close> or the cell \<open>Missing\<close>;
  \<^item> numbers are exact (\<open>real\<close>): floating-point rounding is outside the model;
  \<^item> text is ASCII.
\<close>

type_synonym date = "int \<times> nat \<times> nat"

type_synonym timestamp = "int \<times> nat \<times> nat \<times> nat \<times> nat"

subsection \<open>Calendar arithmetic\<close>

definition is_leap :: "int \<Rightarrow> bool" where
  "is_leap y = (y mod 4 = 0 \<and> (y mod 100 \<noteq> 0 \<or> y mod 400 = 0))"

definition days_in_month :: "int \<Rightarrow> nat \<Rightarrow> nat" where
  "days_in_month y m =
     (if m = 2 then (if is_leap y then 29 else 28)
      else if m = 4 \<or> m = 6 \<or> m = 9 \<or> m = 11 then 30 else 31)"

fun valid_date :: "date \<Rightarrow> bool" where
  "valid_date (y, m, d) = (1 \<le> y \<and> 1 \<le> m \<and> m \<le> 12 \<and> 1 \<le> d \<and> d \<le> days_in_month y m)"

fun valid_timestamp :: "timestamp \<Rightarrow> bool" where
  "valid_timestamp (y, m, d, h, mi) = (valid_date (y, m, d) \<and> h < 24 \<and> mi < 60)"

text \<open>
  The day number of a date in the proleptic Gregorian calendar (day 1 is 0001-01-01, a
  Monday), and the day of the week with Monday = 0 and Sunday = 6.
\<close>

definition days_before_year :: "int \<Rightarrow> int" where
  "days_before_year y = (y - 1) * 365 + (y - 1) div 4 - (y - 1) div 100 + (y - 1) div 400"

definition days_before_month :: "int \<Rightarrow> nat \<Rightarrow> nat" where
  "days_before_month y m = sum_list (map (days_in_month y) [1..<m])"

fun ordinal :: "date \<Rightarrow> int" where
  "ordinal (y, m, d) = days_before_year y + int (days_before_month y m) + int d"

definition weekday :: "date \<Rightarrow> nat" where
  "weekday dt = nat ((ordinal dt + 6) mod 7)"

fun next_day :: "date \<Rightarrow> date" where
  "next_day (y, m, d) =
     (if d < days_in_month y m then (y, m, d + 1)
      else if m < 12 then (y, m + 1, 1) else (y + 1, 1, 1))"

fun date_of :: "timestamp \<Rightarrow> date" where
  "date_of (y, m, d, h, mi) = (y, m, d)"

fun hour_of :: "timestamp \<Rightarrow> nat" where
  "hour_of (y, m, d, h, mi) = h"

text \<open>\<open>pd.to_datetime\<close> of a calendar date (line 68): midnight of that day.\<close>

fun midnight :: "date \<Rightarrow> timestamp" where
  "midnight (y, m, d) = (y, m, d, 0, 0)"

subsection \<open>Timestamp parsing (line 29)\<close>

text \<open>
  \<open>pd.to_datetime(text, format='%d.%m.%Y-%H:%M', errors='coerce')\<close> matches the text
  against the regular expression of the format, whose directives are
  \<^item> \<open>%d\<close>: \<open>3[0-1]|[1-2]\d|0[1-9]|[1-9]| [1-9]\<close>,
  \<^item> \<open>%m\<close>: \<open>1[0-2]|0[1-9]|[1-9]\<close>,
  \<^item> \<open>%Y\<close>: \<open>\d\d\d\d\<close>,
  \<^item> \<open>%H\<close>: \<open>2[0-3]|[0-1]\d|\d\<close>,
  \<^item> \<open>%M\<close>: \<open>[0-5]\d|\d\<close>,

  with the separators taken literally. The first match in backtracking order counts, it
  must consume the whole text, the fields must form a date of the calendar, and the
  result must fit the range of a Timestamp, which pandas 2 keeps in nanoseconds
  (1677-09-21 00:12:43.145224193 to 2262-04-11 23:47:16.854775807). Any failure is
  coerced to \<open>NaT\<close>, here \<open>None\<close>.
\<close>

text \<open>
  The position of the first occurrence of an element in a list (Python's \<open>list.index\<close>
  and \<open>str.index\<close>; the callers check membership first).
\<close>

fun list_index :: "'a list \<Rightarrow> 'a \<Rightarrow> nat" where
  "list_index [] x = 0"
| "list_index (y # ys) x = (if y = x then 0 else Suc (list_index ys x))"

text \<open>The class \<open>\d\<close> on ASCII text, with the digit's value.\<close>

definition digit_val :: "char \<Rightarrow> nat option" where
  "digit_val c =
     (if c \<in> set ''0123456789'' then Some (list_index ''0123456789'' c) else None)"

text \<open>
  One alternative of a directive reads a number off the front of the text and returns it
  with the rest. \<open>one_digit lo hi\<close> is the character class \<open>[lo-hi]\<close>.
\<close>

fun one_digit :: "nat \<Rightarrow> nat \<Rightarrow> string \<Rightarrow> (nat \<times> string) option" where
  "one_digit lo hi [] = None"
| "one_digit lo hi (c # cs) =
     (case digit_val c of
        None \<Rightarrow> None
      | Some v \<Rightarrow> if lo \<le> v \<and> v \<le> hi then Some (v, cs) else None)"

definition two_digits :: "nat \<Rightarrow> nat \<Rightarrow> nat \<Rightarrow> nat \<Rightarrow> string \<Rightarrow> (nat \<times> string) option" where
  "two_digits lo1 hi1 lo0 hi0 s =
     (case one_digit lo1 hi1 s of
        None \<Rightarrow> None
      | Some (a, s1) \<Rightarrow>
          (case one_digit lo0 hi0 s1 of
             None \<Rightarrow> None
           | Some (b, s2) \<Rightarrow> Some (10 * a + b, s2)))"

fun space_digit :: "nat \<Rightarrow> nat \<Rightarrow> string \<Rightarrow> (nat \<times> string) option" where
  "space_digit lo hi [] = None"
| "space_digit lo hi (c # cs) = (if c = CHR '' '' then one_digit lo hi cs else None)"

text \<open>The matches of a directive, in the order in which backtracking tries them.\<close>

definition alternatives ::
  "(string \<Rightarrow> (nat \<times> string) option) list \<Rightarrow> string \<Rightarrow> (nat \<times> string) list" where
  "alternatives alts s = List.map_filter (\<lambda>alt. alt s) alts"

definition re_d :: "string \<Rightarrow> (nat \<times> string) list" where
  "re_d = alternatives
     [two_digits 3 3 0 1, two_digits 1 2 0 9, two_digits 0 0 1 9, one_digit 1 9, space_digit 1 9]"

definition re_m :: "string \<Rightarrow> (nat \<times> string) list" where
  "re_m = alternatives [two_digits 1 1 0 2, two_digits 0 0 1 9, one_digit 1 9]"

definition re_Y :: "string \<Rightarrow> (nat \<times> string) list" where
  "re_Y s =
     (case two_digits 0 9 0 9 s of
        None \<Rightarrow> []
      | Some (hi, s1) \<Rightarrow>
          (case two_digits 0 9 0 9 s1 of
             None \<Rightarrow> []
           | Some (lo, s2) \<Rightarrow> [(100 * hi + lo, s2)]))"

definition re_H :: "string \<Rightarrow> (nat \<times> string) list" where
  "re_H = alternatives [two_digits 2 2 0 3, two_digits 0 1 0 9, one_digit 0 9]"

definition re_M :: "string \<Rightarrow> (nat \<times> string) list" where
  "re_M = alternatives [two_digits 0 5 0 9, one_digit 0 9]"

fun lit :: "char \<Rightarrow> string \<Rightarrow> string list" where
  "lit c [] = []"
| "lit c (x # xs) = (if x = c then [xs] else [])"

text \<open>All matches of the whole format at the start of the text: the fields and the rest.\<close>

definition format_regex :: "string \<Rightarrow> ((nat \<times> nat \<times> nat \<times> nat \<times> nat) \<times> string) list" where
  "format_regex s =
     [((d, m, y, h, mi), s9).
        (d, s1) \<leftarrow> re_d s, s2 \<leftarrow> lit (CHR ''.'') s1,
        (m, s3) \<leftarrow> re_m s2, s4 \<leftarrow> lit (CHR ''.'') s3,
        (y, s5) \<leftarrow> re_Y s4, s6 \<leftarrow> lit (CHR ''-'') s5,
        (h, s7) \<leftarrow> re_H s6, s8 \<leftarrow> lit (CHR '':'') s7,
        (mi, s9) \<leftarrow> re_M s8]"

definition in_bounds :: "timestamp \<Rightarrow> bool" where
  "in_bounds t = ((1677, 9, 21, 0, 13) \<le> t \<and> t \<le> (2262, 4, 11, 23, 47))"

definition to_datetime :: "string \<Rightarrow> timestamp option" where
  "to_datetime s =
     (case format_regex s of
        [] \<Rightarrow> None
      | ((d, m, y, h, mi), rest) # _ \<Rightarrow>
          if rest \<noteq> [] then None
          else if valid_date (int y, m, d) \<and> in_bounds (int y, m, d, h, mi)
               then Some (int y, m, d, h, mi)
               else None)"

text \<open>
  The text form \<open>dd.mm.YYYY-HH:MM\<close> of a timestamp: two digits for day, month, hour
  and minute, four for the year.
\<close>

definition digit_char :: "nat \<Rightarrow> char" where
  "digit_char n = ''0123456789'' ! n"







subsection \<open>Frames\<close>

text \<open>
  The dtypes of the columns. \<open>Int64\<close> is the dtype \<open>pd.read_csv\<close> infers for a column of
  integers without a missing value; the arithmetic of such a column is that of 64-bit
  two's-complement integers. \<open>Numeric\<close> stands for the other numeric dtypes (\<open>float64\<close>
  for a column of the file with a decimal point or a missing value; \<open>HOUR\<close>), whose
  arithmetic is taken on the reals: the rounding of floating-point numbers is left out.
  \<open>Object\<close> is every dtype that is not numeric.

  The cells: \<open>Num\<close> is a value of a \<open>Numeric\<close> column, \<open>I64\<close> a value of an \<open>Int64\<close> column (a
  column of dtype \<open>Int64\<close> holds \<open>I64\<close> cells only).
\<close>

datatype dtype = Numeric | Int64 | Object

datatype cell = Num real | I64 int | Txt string | DateV date | Missing

text \<open>
  A row of a DataFrame: its index label (\<open>None\<close> is \<open>NaT\<close>) and its cells by column
  name, in column order. A frame lists its columns with their dtypes and its rows in
  file order.
\<close>

record row =
  DATE_TIME :: "timestamp option"
  cells :: "(string \<times> cell) list"

record frame =
  columns :: "(string \<times> dtype) list"
  rows :: "row list"

subsection \<open>Loading (lines 21-46)\<close>

text \<open>
  What \<open>pd.read_csv\<close> does with the file: it raises \<open>FileNotFoundError\<close>, it raises
  some other error, or it returns the columns (with the dtypes it inferred) and the
  rows, each row giving its cells by column name.
\<close>

datatype source =
    FileNotFound
  | Unparsable
  | Csv "(string \<times> dtype) list" "(string \<times> cell) list list"

text \<open>
  The three \<open>except\<close> clauses, each of which reports with \<open>st.error\<close> and returns the
  empty \<open>pd.DataFrame()\<close>: \<open>FileNotFoundError\<close> (the spec's SourceUnavailable),
  \<open>KeyError\<close> (SchemaMismatch) and any other \<open>Exception\<close> (MalformedInput).
\<close>

datatype diagnostic = SourceUnavailable | SchemaMismatch | MalformedInput

definition empty_frame :: frame where
  "empty_frame = \<lparr>columns = [], rows = []\<rparr>"

text \<open>Line 26: \<open>df.rename(columns={'Date-Hour(NMT)': 'DATE_TIME'})\<close>.\<close>

definition rename_col :: "string \<Rightarrow> string" where
  "rename_col n = (if n = ''Date-Hour(NMT)'' then ''DATE_TIME'' else n)"

definition rename :: "(string \<times> 'a) list \<Rightarrow> (string \<times> 'a) list" where
  "rename kvs = map (\<lambda>(n, v). (rename_col n, v)) kvs"

text \<open>
  Line 29 on one cell: only text can match the format (a number is converted to its
  decimal text, which has neither \<open>-\<close> nor \<open>:\<close> in the places the format needs them).
\<close>

fun to_datetime_cell :: "cell \<Rightarrow> timestamp option" where
  "to_datetime_cell (Txt s) = to_datetime s"
| "to_datetime_cell _ = None"

text \<open>Lines 32 and 33: \<open>.dt.date\<close> and \<open>.dt.hour\<close>, both missing for \<open>NaT\<close>.\<close>

fun dt_date :: "timestamp option \<Rightarrow> cell" where
  "dt_date None = Missing"
| "dt_date (Some t) = DateV (date_of t)"

fun dt_hour :: "timestamp option \<Rightarrow> cell" where
  "dt_hour None = Missing"
| "dt_hour (Some t) = Num (real (hour_of t))"

text \<open>
  Lines 29-36 on one row: parse the \<open>DATE_TIME\<close> cell, assign the columns \<open>DATE\<close> and
  \<open>HOUR\<close> (replacing a column of that name, else appending), move \<open>DATE_TIME\<close> from the
  columns to the index.
\<close>

definition process_row :: "(string \<times> cell) list \<Rightarrow> row" where
  "process_row r =
     (let t = (case map_of r ''DATE_TIME'' of None \<Rightarrow> None | Some c \<Rightarrow> to_datetime_cell c) in
      \<lparr>DATE_TIME = t,
       cells = AList.delete ''DATE_TIME''
                 (AList.update ''HOUR'' (dt_hour t) (AList.update ''DATE'' (dt_date t) r))\<rparr>)"

text \<open>
  \<open>df['DATE_TIME']\<close> raises \<open>KeyError\<close> when no column has that name after the
  renaming. When two have it (the file had both \<open>Date-Hour(NMT)\<close> and \<open>DATE_TIME\<close>), the
  selection is a frame, which \<open>pd.to_datetime\<close> refuses with a \<open>ValueError\<close>.
\<close>

definition load_and_process_data :: "source \<Rightarrow> diagnostic option \<times> frame" where
  "load_and_process_data src =
     (case src of
        FileNotFound \<Rightarrow> (Some SourceUnavailable, empty_frame)
      | Unparsable \<Rightarrow> (Some MalformedInput, empty_frame)
      | Csv cols rs \<Rightarrow>
          (case filter (\<lambda>c. fst c = ''DATE_TIME'') (rename cols) of
             [] \<Rightarrow> (Some SchemaMismatch, empty_frame)
           | [_] \<Rightarrow>
               (None,
                \<lparr>columns = AList.delete ''DATE_TIME''
                    (AList.update ''HOUR'' Numeric (AList.update ''DATE'' Object (rename cols))),
                 rows = map (\<lambda>r. process_row (rename r)) rs\<rparr>)
           | _ \<Rightarrow> (Some MalformedInput, empty_frame)))"

subsection \<open>Date-range filter (lines 67-69)\<close>

text \<open>
  \<open>df.loc[start_date:end_date]\<close> with two Timestamps slices by position, between the
  bounds that \<open>Index.get_slice_bound\<close> finds for the two labels:
  \<^item> a label present in the index gives the position of its first occurrence (left
    bound) or the position after its last (right bound), and raises \<open>KeyError\<close> when
    its occurrences are not contiguous;
  \<^item> a label that is absent is located by binary search when the index is monotonic
    (an index holding \<open>NaT\<close> is not), and raises \<open>KeyError\<close> otherwise.
\<close>

datatype py_error = KeyError

datatype side = Left | Right

definition index :: "frame \<Rightarrow> timestamp option list" where
  "index df = map DATE_TIME (rows df)"

text \<open>Every label of the index is \<open>NaT\<close> or a date and time of the calendar.\<close>

definition valid_index :: "frame \<Rightarrow> bool" where
  "valid_index df =
     list_all (\<lambda>x. case x of None \<Rightarrow> True | Some t \<Rightarrow> valid_timestamp t) (index df)"

definition is_monotonic_increasing :: "timestamp option list \<Rightarrow> bool" where
  "is_monotonic_increasing idx = (None \<notin> set idx \<and> sorted (map the idx))"

definition is_monotonic_decreasing :: "timestamp option list \<Rightarrow> bool" where
  "is_monotonic_decreasing idx = (None \<notin> set idx \<and> sorted (rev (map the idx)))"

definition positions :: "timestamp option list \<Rightarrow> timestamp \<Rightarrow> nat list" where
  "positions idx label = [i \<leftarrow> [0..<length idx]. idx ! i = Some label]"

text \<open>\<open>searchsorted\<close> on an ascending array: the first position that keeps it sorted
  (left), or the last (right).\<close>

fun searchsorted :: "timestamp list \<Rightarrow> timestamp \<Rightarrow> side \<Rightarrow> nat" where
  "searchsorted ts x Left = length (takeWhile (\<lambda>t. t < x) ts)"
| "searchsorted ts x Right = length (takeWhile (\<lambda>t. t \<le> x) ts)"

fun flip :: "side \<Rightarrow> side" where
  "flip Left = Right"
| "flip Right = Left"

definition get_slice_bound :: "timestamp option list \<Rightarrow> timestamp \<Rightarrow> side \<Rightarrow> py_error + nat" where
  "get_slice_bound idx label sd =
     (let ps = positions idx label in
      if ps \<noteq> [] then
        (if ps = [hd ps..<Suc (last ps)]
         then Inr (case sd of Left \<Rightarrow> hd ps | Right \<Rightarrow> Suc (last ps))
         else Inl KeyError)
      else if is_monotonic_increasing idx then Inr (searchsorted (map the idx) label sd)
      else if is_monotonic_decreasing idx
        then Inr (length idx - searchsorted (rev (map the idx)) label (flip sd))
      else Inl KeyError)"

definition loc_slice :: "frame \<Rightarrow> timestamp \<Rightarrow> timestamp \<Rightarrow> py_error + frame" where
  "loc_slice df start_date end_date =
     (case get_slice_bound (index df) start_date Left of
        Inl e \<Rightarrow> Inl e
      | Inr i \<Rightarrow>
          (case get_slice_bound (index df) end_date Right of
             Inl e \<Rightarrow> Inl e
           | Inr j \<Rightarrow> Inr (df\<lparr>rows := take (j - i) (drop i (rows df))\<rparr>)))"

text \<open>
  Lines 67-69, with the two dates of the date picker: each becomes the Timestamp of its
  midnight (\<open>pd.to_datetime\<close> of a date).
\<close>

definition df_filtered :: "frame \<Rightarrow> date \<Rightarrow> date \<Rightarrow> py_error + frame" where
  "df_filtered df d0 d1 = loc_slice df (midnight d0) (midnight d1)"

subsection \<open>Aggregation (lines 120-122 and 148)\<close>

text \<open>The numeric value of a row in a column; missing when the cell is not a number.\<close>

definition col_value :: "string \<Rightarrow> row \<Rightarrow> real option" where
  "col_value c r =
     (case map_of (cells r) c of
        Some (Num x) \<Rightarrow> Some x
      | Some (I64 i) \<Rightarrow> Some (real_of_int i)
      | _ \<Rightarrow> None)"

text \<open>The dtype of \<open>df[c]\<close>, for a column \<open>c\<close> of the frame (the callers select one).\<close>

definition col_dtype :: "frame \<Rightarrow> string \<Rightarrow> dtype" where
  "col_dtype df c = (case map_of (columns df) c of Some ty \<Rightarrow> ty | None \<Rightarrow> Object)"

text \<open>\<open>df_filtered[col]\<close>: the series of the column, labelled by the index.\<close>

definition series :: "frame \<Rightarrow> string \<Rightarrow> (timestamp option \<times> real option) list" where
  "series df c = map (\<lambda>r. (DATE_TIME r, col_value c r)) (rows df)"

text \<open>
  Addition of \<open>int64\<close> numbers does not check for overflow: the result is the sum
  reduced modulo \<open>2^64\<close> into the range from \<open>-2^63\<close> to \<open>2^63 - 1\<close>.
\<close>

definition wrap_int64 :: "int \<Rightarrow> int" where
  "wrap_int64 x = (x + 9223372036854775808) mod 18446744073709551616 - 9223372036854775808"

text \<open>
  \<open>.sum()\<close> on values of the given dtype skips missing values; the sum of no value is 0.
  The sum of an \<open>Int64\<close> series is accumulated in \<open>int64\<close> (its values are integers, read
  back here with \<open>\<lfloor>_\<rfloor>\<close>) and so wraps around.
\<close>

definition sum_skipna :: "dtype \<Rightarrow> real option list \<Rightarrow> real" where
  "sum_skipna ty vs =
     (case ty of
        Int64 \<Rightarrow> real_of_int (wrap_int64 (sum_list [\<lfloor>v\<rfloor>. Some v \<leftarrow> vs]))
      | _ \<Rightarrow> sum_list [v. Some v \<leftarrow> vs])"

text \<open>
  \<open>.mean()\<close> skips missing values; the mean of no value is missing. The mean is computed
  in floating point whatever the dtype, so nothing wraps here.
\<close>

definition mean_skipna :: "real option list \<Rightarrow> real option" where
  "mean_skipna vs =
     (let xs = [v. Some v \<leftarrow> vs] in
      if xs = [] then None else Some (sum_list xs / real (length xs)))"

text \<open>
  \<open>resample(rule)\<close> with the rules of \<open>resample_map\<close>. \<open>'D'\<close> bins are the calendar days,
  closed and labelled on the left: the label is the first instant of the day. \<open>'W'\<close>
  (weeks ending on Sunday) and \<open>'M'\<close> (month end) bins are the weeks Monday to Sunday and
  the calendar months, closed and labelled on the right: the label is 00:00 of the
  last day of the bin.
\<close>

datatype rule = D | W | M

fun month_end :: "int \<times> nat \<Rightarrow> date" where
  "month_end (y, m) = (y, m, days_in_month y m)"

fun bin_label :: "rule \<Rightarrow> timestamp \<Rightarrow> timestamp" where
  "bin_label D t = midnight (date_of t)"
| "bin_label W t = midnight ((next_day ^^ (6 - weekday (date_of t))) (date_of t))"
| "bin_label M (y, m, d, h, mi) = midnight (month_end (y, m))"

text \<open>The label after a label, and how many labels lie from one label to another.\<close>

fun next_label :: "rule \<Rightarrow> timestamp \<Rightarrow> timestamp" where
  "next_label D t = midnight (next_day (date_of t))"
| "next_label W t = midnight ((next_day ^^ 7) (date_of t))"
| "next_label M (y, m, d, h, mi) =
     midnight (month_end (if m < 12 then (y, m + 1) else (y + 1, 1)))"

fun count_labels :: "rule \<Rightarrow> timestamp \<Rightarrow> timestamp \<Rightarrow> nat" where
  "count_labels D lo hi = nat (ordinal (date_of hi) - ordinal (date_of lo) + 1)"
| "count_labels W lo hi = nat ((ordinal (date_of hi) - ordinal (date_of lo)) div 7 + 1)"
| "count_labels M (y0, m0, r0) (y1, m1, r1) = nat (12 * y1 + int m1 - (12 * y0 + int m0) + 1)"

definition bin_labels :: "rule \<Rightarrow> timestamp \<Rightarrow> timestamp \<Rightarrow> timestamp list" where
  "bin_labels f lo hi = map (\<lambda>k. (next_label f ^^ k) lo) [0..<count_labels f lo hi]"

text \<open>
  \<open>series.resample(rule).sum().reset_index()\<close>: rows labelled \<open>NaT\<close> fall in no bin; the
  bins run from the bin of the earliest label to the bin of the latest, one for every
  period between them; each bin sums the values of the rows in it, in the dtype of the
  series.
\<close>

definition resample_sum ::
  "dtype \<Rightarrow> rule \<Rightarrow> (timestamp option \<times> real option) list \<Rightarrow> (timestamp \<times> real) list" where
  "resample_sum ty f s =
     (let labelled = [(t, v). (Some t, v) \<leftarrow> s] in
      if labelled = [] then []
      else
        map (\<lambda>l. (l, sum_skipna ty [v. (t, v) \<leftarrow> labelled, bin_label f t = l]))
          (bin_labels f (bin_label f (Min (set (map fst labelled))))
                        (bin_label f (Max (set (map fst labelled))))))"

text \<open>Lines 120-122 for the options \<open>Harian\<close>, \<open>Mingguan\<close> and \<open>Bulanan\<close>.\<close>

definition df_resampled :: "rule \<Rightarrow> frame \<Rightarrow> string \<Rightarrow> (timestamp \<times> real) list" where
  "df_resampled f df c = resample_sum (col_dtype df c) f (series df c)"

text \<open>
  Vocabulary for the statements about \<open>resample\<close>. The labels a rule can emit: the
  midnight of a calendar day (\<open>D\<close>), of a Sunday (\<open>W\<close>), of the last day of a month (\<open>M\<close>).
  The number of the period a label stands for (days, weeks and months counted from a
  fixed origin). The timestamps a label stands for: those of its day, those of the
  seven days that end with it, those of its month.
\<close>

fun is_label :: "rule \<Rightarrow> timestamp \<Rightarrow> bool" where
  "is_label D (y, m, d, h, mi) = (valid_date (y, m, d) \<and> h = 0 \<and> mi = 0)"
| "is_label W (y, m, d, h, mi) = (valid_date (y, m, d) \<and> h = 0 \<and> mi = 0 \<and> weekday (y, m, d) = 6)"
| "is_label M (y, m, d, h, mi) = (valid_date (y, m, d) \<and> h = 0 \<and> mi = 0 \<and> d = days_in_month y m)"

fun bin_number :: "rule \<Rightarrow> timestamp \<Rightarrow> int" where
  "bin_number D l = ordinal (date_of l)"
| "bin_number W l = ordinal (date_of l) div 7"
| "bin_number M (y, m, d, h, mi) = 12 * y + int m"

fun in_bin :: "rule \<Rightarrow> timestamp \<Rightarrow> timestamp \<Rightarrow> bool" where
  "in_bin D l t = (date_of t = date_of l)"
| "in_bin W l t = (ordinal (date_of l) - 6 \<le> ordinal (date_of t)
                   \<and> ordinal (date_of t) \<le> ordinal (date_of l))"
| "in_bin M (y, m, d, h, mi) (y', m', d', h', mi') = (y' = y \<and> m' = m)"

text \<open>
  Line 148: \<open>df_filtered.groupby('HOUR')[col].mean().reset_index()\<close>. The groups are
  the distinct values of \<open>HOUR\<close> in ascending order; rows without an hour are in no group.
\<close>

definition hourly_avg :: "frame \<Rightarrow> string \<Rightarrow> (real \<times> real option) list" where
  "hourly_avg df c =
     map (\<lambda>h. (h, mean_skipna [col_value c r. r \<leftarrow> rows df, col_value ''HOUR'' r = Some h]))
       (sort (remdups [h. r \<leftarrow> rows df, Some h \<leftarrow> [col_value ''HOUR'' r]]))"

subsection \<open>Column classification (lines 79 and 158-167)\<close>

definition is_ascii_lower :: "char \<Rightarrow> bool" where
  "is_ascii_lower c = (let n = (of_char c :: nat) in 97 \<le> n \<and> n \<le> 122)"

text \<open>\<open>str.upper\<close> on ASCII text: a lower-case letter loses bit 5 (0x20).\<close>

fun upper_char :: "char \<Rightarrow> char" where
  "upper_char (Char b0 b1 b2 b3 b4 b5 b6 b7) =
     (if is_ascii_lower (Char b0 b1 b2 b3 b4 b5 b6 b7) then Char b0 b1 b2 b3 b4 False b6 b7
      else Char b0 b1 b2 b3 b4 b5 b6 b7)"

definition upper :: "string \<Rightarrow> string" where
  "upper s = map upper_char s"

text \<open>Python's \<open>kw in s\<close> on strings: \<open>kw\<close> occurs in \<open>s\<close> as a contiguous substring.\<close>

fun py_in :: "string \<Rightarrow> string \<Rightarrow> bool" where
  "py_in kw [] = (kw = [])"
| "py_in kw (c # cs) = (prefix kw (c # cs) \<or> py_in kw cs)"

text \<open>
  Line 79: \<open>[col for col in df_filtered.columns if 'GENERATION' in col.upper() or ...]\<close>.
\<close>

definition generation_cols :: "frame \<Rightarrow> string list" where
  "generation_cols df =
     [col \<leftarrow> map fst (columns df).
        py_in ''GENERATION'' (upper col) \<or> py_in ''YIELD'' (upper col)
        \<or> py_in ''POWER'' (upper col) \<or> py_in ''PRODUCTION'' (upper col)]"

text \<open>Line 158: \<open>df_filtered.select_dtypes(include=np.number).columns.tolist()\<close>.\<close>

fun is_number :: "dtype \<Rightarrow> bool" where
  "is_number Object = False"
| "is_number _ = True"

definition numeric_cols :: "frame \<Rightarrow> string list" where
  "numeric_cols df = map fst [c \<leftarrow> columns df. is_number (snd c)]"

text \<open>Lines 161-163.\<close>

definition default_col_index :: "string list \<Rightarrow> nat" where
  "default_col_index ncols =
     (if ''Radiation'' \<in> set ncols then list_index ncols ''Radiation'' else 0)"

text \<open>
  Lines 165-167: the select box over \<open>numeric_cols\<close> starts at \<open>default_col_index\<close>;
  over an empty option list it holds no selection.
\<close>

definition correlation_default :: "frame \<Rightarrow> string option" where
  "correlation_default df =
     (let ncols = numeric_cols df in
      if ncols = [] then None else Some (ncols ! default_col_index ncols))"

section \<open>Properties\<close>

subsection \<open>Timestamp parsing\<close>

lemma list_index_distinct: "distinct xs \<Longrightarrow> n < length xs \<Longrightarrow> list_index xs (xs ! n) = n"
proof (induction xs arbitrary: n)
  case Nil
  then show ?case by simp
next
  case (Cons x xs)
  then show ?case by (cases n) auto
qed

lemma list_index_nth: "x \<in> set ys \<Longrightarrow> list_index ys x < length ys \<and> ys ! list_index ys x = x"
  by (induction ys) auto

lemma digit_val_digit_char: "n < 10 \<Longrightarrow> digit_val (digit_char n) = Some n"
  unfolding digit_val_def digit_char_def
  using list_index_distinct [of "''0123456789''" n] nth_mem [of n "''0123456789''"]
  by simp















lemma alternatives_set:
  "(v, r) \<in> set (alternatives alts s) \<longleftrightarrow> (\<exists>alt \<in> set alts. alt s = Some (v, r))"
  by (induction alts) (auto simp: alternatives_def List.map_filter_simps split: option.splits)

lemma one_digit_range: "one_digit lo hi s = Some (v, r) \<Longrightarrow> lo \<le> v \<and> v \<le> hi"
  by (cases s) (auto split: option.splits if_splits)

lemma two_digits_range:
  "two_digits lo1 hi1 lo0 hi0 s = Some (v, r) \<Longrightarrow> 10 * lo1 + lo0 \<le> v \<and> v \<le> 10 * hi1 + hi0"
  by (auto simp: two_digits_def split: option.splits dest!: one_digit_range)

lemma space_digit_range: "space_digit lo hi s = Some (v, r) \<Longrightarrow> lo \<le> v \<and> v \<le> hi"
  by (cases s) (auto split: if_splits dest: one_digit_range)

lemma re_m_range: "(v, r) \<in> set (re_m s) \<Longrightarrow> 1 \<le> v \<and> v \<le> 12"
  by (auto simp: re_m_def alternatives_set dest!: one_digit_range two_digits_range)

lemma re_H_range: "(v, r) \<in> set (re_H s) \<Longrightarrow> v < 24"
  by (auto simp: re_H_def alternatives_set dest!: one_digit_range two_digits_range)

lemma re_M_range: "(v, r) \<in> set (re_M s) \<Longrightarrow> v < 60"
  by (auto simp: re_M_def alternatives_set dest!: one_digit_range two_digits_range)

lemma format_regex_range:
  "((d, m, y, h, mi), r) \<in> set (format_regex s) \<Longrightarrow> 1 \<le> m \<and> m \<le> 12 \<and> h < 24 \<and> mi < 60"
  by (auto simp: format_regex_def dest: re_m_range re_H_range re_M_range)

lemma to_datetime_sound:
  assumes "to_datetime s = Some t"
  shows "valid_timestamp t \<and> in_bounds t"
proof -
  from assms obtain d m y h mi tl where
    fr: "format_regex s = ((d, m, y, h, mi), []) # tl"
    and t: "t = (int y, m, d, h, mi)" and ok: "valid_date (int y, m, d)" "in_bounds t"
    by (auto simp: to_datetime_def split: list.splits if_splits)
  from fr have "((d, m, y, h, mi), []) \<in> set (format_regex s)" by simp
  from format_regex_range [OF this] ok t show ?thesis by simp
qed




lemma one_digit_digit_char:
  "n < 10 \<Longrightarrow> one_digit lo hi (digit_char n # cs) = (if lo \<le> n \<and> n \<le> hi then Some (n, cs) else None)"
  by (simp add: digit_val_digit_char)


























lemma process_row_cells:
  "DATE_TIME (process_row r) = (case map_of r ''DATE_TIME'' of None \<Rightarrow> None | Some c \<Rightarrow> to_datetime_cell c)"
  "map_of (cells (process_row r)) ''DATE'' = Some (dt_date (DATE_TIME (process_row r)))"
  "map_of (cells (process_row r)) ''HOUR'' = Some (dt_hour (DATE_TIME (process_row r)))"
  by (simp_all add: process_row_def Let_def delete_conv update_conv)




subsection \<open>Loading\<close>

lemma rename_fst: "fst ` set (rename kvs) = rename_col ` fst ` set kvs"
  by (force simp: rename_def)

lemma load_cases:
  "load_and_process_data src = (Some SourceUnavailable, empty_frame)
   \<or> load_and_process_data src = (Some SchemaMismatch, empty_frame)
   \<or> load_and_process_data src = (Some MalformedInput, empty_frame)
   \<or> (\<exists>cols rs. src = Csv cols rs \<and>
        load_and_process_data src =
          (None,
           \<lparr>columns = AList.delete ''DATE_TIME''
               (AList.update ''HOUR'' Numeric (AList.update ''DATE'' Object (rename cols))),
            rows = map (\<lambda>r. process_row (rename r)) rs\<rparr>))"
  by (auto simp: load_and_process_data_def split: source.splits list.splits)

lemma timestamp_columns:
  "length (filter (\<lambda>c. fst c = ''DATE_TIME'') (rename cols))
     = length [c \<leftarrow> cols. fst c = ''Date-Hour(NMT)'' \<or> fst c = ''DATE_TIME'']"
proof (induction cols)
  case Nil
  show ?case by (simp add: rename_def)
next
  case (Cons c cols)
  obtain n v where c: "c = (n, v)" by (cases c)
  have r: "rename_col n = ''DATE_TIME'' \<longleftrightarrow> n = ''Date-Hour(NMT)'' \<or> n = ''DATE_TIME''"
    by (simp add: rename_col_def)
  have "rename (c # cols) = (rename_col n, v) # rename cols"
    by (simp add: rename_def c)
  then have "length (filter (\<lambda>c. fst c = ''DATE_TIME'') (rename (c # cols)))
      = (if n = ''Date-Hour(NMT)'' \<or> n = ''DATE_TIME'' then 1 else 0)
        + length (filter (\<lambda>c. fst c = ''DATE_TIME'') (rename cols))"
    by (simp only: filter.simps fst_conv r) simp
  moreover have "length [c \<leftarrow> c # cols. fst c = ''Date-Hour(NMT)'' \<or> fst c = ''DATE_TIME'']
      = (if n = ''Date-Hour(NMT)'' \<or> n = ''DATE_TIME'' then 1 else 0)
        + length [c \<leftarrow> cols. fst c = ''Date-Hour(NMT)'' \<or> fst c = ''DATE_TIME'']"
    by (simp only: filter.simps fst_conv c) simp
  ultimately show ?case by (simp only: Cons.IH)
qed

text \<open>
  A header without \<open>Date-Hour(NMT)\<close> but with a column \<open>DATE_TIME\<close> loads: no diagnostic,
  and a table with the row.
\<close>

theorem load_schema_mismatch_counterexample:
  "''Date-Hour(NMT)'' \<notin> fst ` set [(''DATE_TIME'', Object), (''SystemProduction'', Numeric)]
   \<and> load_and_process_data
        (Csv [(''DATE_TIME'', Object), (''SystemProduction'', Numeric)]
             [[(''DATE_TIME'', Txt ''05.06.2020-14:30''), (''SystemProduction'', Num 3)]])
     = (None,
        \<lparr>columns = [(''SystemProduction'', Numeric), (''DATE'', Object), (''HOUR'', Numeric)],
         rows = [\<lparr>DATE_TIME = Some (2020, 6, 5, 14, 30),
                  cells = [(''SystemProduction'', Num 3), (''DATE'', DateV (2020, 6, 5)),
                           (''HOUR'', Num 14)]\<rparr>]\<rparr>)"
  by code_simp

text \<open>
  C7 (amended). What the loader reports depends on how many columns of the header are
  named \<open>Date-Hour(NMT)\<close> or \<open>DATE_TIME\<close>. With none (the header has neither name), it
  reports a schema mismatch and gives the empty table. With exactly one (so also for a
  header without \<open>Date-Hour(NMT)\<close> that names a column \<open>DATE_TIME\<close>), it reports nothing
  and gives the table whose index is that column, parsed row by row. With more than one
  (so for a header with both names), it reports malformed input and gives the empty
  table. No load that reports a diagnostic returns anything but the empty table.
\<close>

theorem load_schema_mismatch:
  "(''Date-Hour(NMT)'' \<notin> fst ` set cols \<and> ''DATE_TIME'' \<notin> fst ` set cols \<longrightarrow>
      load_and_process_data (Csv cols rs) = (Some SchemaMismatch, empty_frame))
   \<and> (length [c \<leftarrow> cols. fst c = ''Date-Hour(NMT)'' \<or> fst c = ''DATE_TIME''] = 1 \<longrightarrow>
      load_and_process_data (Csv cols rs) =
        (None,
         \<lparr>columns = AList.delete ''DATE_TIME''
             (AList.update ''HOUR'' Numeric (AList.update ''DATE'' Object (rename cols))),
          rows = map (\<lambda>r. process_row (rename r)) rs\<rparr>)
      \<and> index (snd (load_and_process_data (Csv cols rs))) =
          map (\<lambda>r. case map_of (rename r) ''DATE_TIME'' of None \<Rightarrow> None | Some c \<Rightarrow> to_datetime_cell c) rs)
   \<and> (1 < length [c \<leftarrow> cols. fst c = ''Date-Hour(NMT)'' \<or> fst c = ''DATE_TIME''] \<longrightarrow>
      load_and_process_data (Csv cols rs) = (Some MalformedInput, empty_frame))
   \<and> (''Date-Hour(NMT)'' \<in> fst ` set cols \<and> ''DATE_TIME'' \<in> fst ` set cols \<longrightarrow>
      load_and_process_data (Csv cols rs) = (Some MalformedInput, empty_frame))
   \<and> (fst (load_and_process_data src) \<noteq> None \<longrightarrow> snd (load_and_process_data src) = empty_frame)"
proof (intro conjI impI)
  let ?ts = "[c \<leftarrow> cols. fst c = ''Date-Hour(NMT)'' \<or> fst c = ''DATE_TIME'']"
  let ?df = "\<lparr>columns = AList.delete ''DATE_TIME''
             (AList.update ''HOUR'' Numeric (AList.update ''DATE'' Object (rename cols))),
          rows = map (\<lambda>r. process_row (rename r)) rs\<rparr>"
  have n: "length (filter (\<lambda>c. fst c = ''DATE_TIME'') (rename cols)) = length ?ts"
    by (rule timestamp_columns)
  show "load_and_process_data (Csv cols rs) = (Some SchemaMismatch, empty_frame)"
    if "''Date-Hour(NMT)'' \<notin> fst ` set cols \<and> ''DATE_TIME'' \<notin> fst ` set cols"
  proof -
    from that have "''DATE_TIME'' \<notin> fst ` set (rename cols)"
      by (auto simp: rename_fst rename_col_def)
    then have "filter (\<lambda>c. fst c = ''DATE_TIME'') (rename cols) = []"
      by (force simp: filter_empty_conv)
    then show ?thesis by (simp add: load_and_process_data_def)
  qed
  show one: "load_and_process_data (Csv cols rs) = (None, ?df)" if "length ?ts = 1"
  proof -
    from that n obtain x where "filter (\<lambda>c. fst c = ''DATE_TIME'') (rename cols) = [x]"
      by (auto simp: length_Suc_conv)
    then show ?thesis by (simp add: load_and_process_data_def)
  qed
  show "index (snd (load_and_process_data (Csv cols rs))) =
      map (\<lambda>r. case map_of (rename r) ''DATE_TIME'' of None \<Rightarrow> None | Some c \<Rightarrow> to_datetime_cell c) rs"
    if "length ?ts = 1"
    unfolding one [OF that] by (simp add: index_def process_row_cells(1) comp_def)
  show many: "load_and_process_data (Csv cols rs) = (Some MalformedInput, empty_frame)"
    if "1 < length ?ts"
  proof -
    from that n obtain x y zs where "filter (\<lambda>c. fst c = ''DATE_TIME'') (rename cols) = x # y # zs"
      by (cases "filter (\<lambda>c. fst c = ''DATE_TIME'') (rename cols)" rule: remdups_adj.cases) auto
    then show ?thesis by (simp add: load_and_process_data_def)
  qed
  show "load_and_process_data (Csv cols rs) = (Some MalformedInput, empty_frame)"
    if "''Date-Hour(NMT)'' \<in> fst ` set cols \<and> ''DATE_TIME'' \<in> fst ` set cols"
  proof -
    from that obtain c1 c2 where c: "c1 \<in> set cols" "fst c1 = ''Date-Hour(NMT)''"
      "c2 \<in> set cols" "fst c2 = ''DATE_TIME''"
      by auto
    then have "c1 \<noteq> c2" by auto
    moreover from c have "{c1, c2} \<subseteq> set ?ts" by simp
    ultimately have "2 \<le> card (set ?ts)"
      using card_mono [of "set ?ts" "{c1, c2}"] by simp
    also have "\<dots> \<le> length ?ts" by (rule card_length)
    finally have "1 < length ?ts" by simp
    then show ?thesis by (rule many)
  qed
  show "snd (load_and_process_data src) = empty_frame" if "fst (load_and_process_data src) \<noteq> None"
    using that load_cases [of src] by auto
qed

theorem load_schema_mismatch_witness:
  "load_and_process_data
     (Csv [(''Time'', Object), (''SystemProduction'', Numeric)]
          [[(''Time'', Txt ''05.06.2020-14:30''), (''SystemProduction'', Num 3)]])
   = (Some SchemaMismatch, empty_frame)
   \<and> fst (load_and_process_data FileNotFound) \<noteq> None
   \<and> snd (load_and_process_data FileNotFound) = empty_frame
   \<and> index (snd (load_and_process_data
       (Csv [(''DATE_TIME'', Object), (''SystemProduction'', Numeric)]
            [[(''DATE_TIME'', Txt ''05.06.2020-14:30''), (''SystemProduction'', Num 3)]])))
      = [Some (2020, 6, 5, 14, 30)]
   \<and> load_and_process_data
       (Csv [(''Date-Hour(NMT)'', Object), (''DATE_TIME'', Object), (''SystemProduction'', Numeric)]
            [[(''Date-Hour(NMT)'', Txt ''05.06.2020-14:30''), (''DATE_TIME'', Txt ''05.06.2020-14:30''),
              (''SystemProduction'', Num 3)]])
     = (Some MalformedInput, empty_frame)"
proof -
  have "load_and_process_data
     (Csv [(''Time'', Object), (''SystemProduction'', Numeric)]
          [[(''Time'', Txt ''05.06.2020-14:30''), (''SystemProduction'', Num 3)]])
   = (Some SchemaMismatch, empty_frame)"
    using load_schema_mismatch [of "[(''Time'', Object), (''SystemProduction'', Numeric)]"
      "[[(''Time'', Txt ''05.06.2020-14:30''), (''SystemProduction'', Num 3)]]", THEN conjunct1]
    by simp
  moreover have n: "fst (load_and_process_data FileNotFound) \<noteq> None"
    by (simp add: load_and_process_data_def)
  moreover have "snd (load_and_process_data FileNotFound) = empty_frame"
    using load_schema_mismatch [of _ _ FileNotFound, THEN conjunct2, THEN conjunct2,
      THEN conjunct2, THEN conjunct2] n by simp
  moreover have "index (snd (load_and_process_data
       (Csv [(''DATE_TIME'', Object), (''SystemProduction'', Numeric)]
            [[(''DATE_TIME'', Txt ''05.06.2020-14:30''), (''SystemProduction'', Num 3)]])))
      = [Some (2020, 6, 5, 14, 30)]"
  proof -
    let ?cols = "[(''DATE_TIME'', Object), (''SystemProduction'', Numeric)]"
    let ?rs = "[[(''DATE_TIME'', Txt ''05.06.2020-14:30''), (''SystemProduction'', Num 3)]]"
    have 1: "length [c \<leftarrow> ?cols. fst c = ''Date-Hour(NMT)'' \<or> fst c = ''DATE_TIME''] = 1"
      by simp
    have e: "map (\<lambda>r. case map_of (rename r) ''DATE_TIME'' of None \<Rightarrow> None
                       | Some c \<Rightarrow> to_datetime_cell c) ?rs
           = [Some (2020, 6, 5, 14, 30)]"
      by code_simp
    from load_schema_mismatch [of ?cols ?rs, THEN conjunct2, THEN conjunct1, THEN mp, OF 1,
      THEN conjunct2]
    show ?thesis unfolding e .
  qed
  moreover have "load_and_process_data
       (Csv [(''Date-Hour(NMT)'', Object), (''DATE_TIME'', Object), (''SystemProduction'', Numeric)]
            [[(''Date-Hour(NMT)'', Txt ''05.06.2020-14:30''), (''DATE_TIME'', Txt ''05.06.2020-14:30''),
              (''SystemProduction'', Num 3)]])
     = (Some MalformedInput, empty_frame)"
    using load_schema_mismatch [of
      "[(''Date-Hour(NMT)'', Object), (''DATE_TIME'', Object), (''SystemProduction'', Numeric)]"
      "[[(''Date-Hour(NMT)'', Txt ''05.06.2020-14:30''), (''DATE_TIME'', Txt ''05.06.2020-14:30''),
         (''SystemProduction'', Num 3)]]",
      THEN conjunct2, THEN conjunct2, THEN conjunct2, THEN conjunct1]
    by simp
  ultimately show ?thesis by (simp only: simp_thms)
qed

text \<open>
  A row whose timestamp text does not parse is in the loaded table, labelled \<open>NaT\<close>.
\<close>

theorem load_unparseable_rows_counterexample:
  "to_datetime ''garbage'' = None
   \<and> load_and_process_data
        (Csv [(''Date-Hour(NMT)'', Object), (''SystemProduction'', Numeric)]
             [[(''Date-Hour(NMT)'', Txt ''garbage''), (''SystemProduction'', Num 6)]])
     = (None,
        \<lparr>columns = [(''SystemProduction'', Numeric), (''DATE'', Object), (''HOUR'', Numeric)],
         rows = [\<lparr>DATE_TIME = None,
                  cells = [(''SystemProduction'', Num 6), (''DATE'', Missing),
                           (''HOUR'', Missing)]\<rparr>]\<rparr>)"
  by code_simp

text \<open>
  C3 (amended). A load that succeeds keeps every row of the file, in file order: the
  index holds, row by row, what the timestamp cell parses to, \<open>NaT\<close> where it does not
  parse, and a row labelled \<open>NaT\<close> has a missing \<open>DATE\<close> and a missing \<open>HOUR\<close>. The loader
  returns the table and nothing else.
\<close>

theorem load_unparseable_rows:
  "load_and_process_data (Csv cols rs) = (None, df) \<longrightarrow>
     length (rows df) = length rs
     \<and> index df =
         map (\<lambda>r. case map_of (rename r) ''DATE_TIME'' of None \<Rightarrow> None | Some c \<Rightarrow> to_datetime_cell c) rs
     \<and> (\<forall>r \<in> set (rows df). DATE_TIME r = None \<longrightarrow>
           map_of (cells r) ''DATE'' = Some Missing \<and> map_of (cells r) ''HOUR'' = Some Missing)"
proof
  assume "load_and_process_data (Csv cols rs) = (None, df)"
  then have df: "rows df = map (\<lambda>r. process_row (rename r)) rs"
    using load_cases [of "Csv cols rs"] by auto
  show "length (rows df) = length rs
     \<and> index df =
         map (\<lambda>r. case map_of (rename r) ''DATE_TIME'' of None \<Rightarrow> None | Some c \<Rightarrow> to_datetime_cell c) rs
     \<and> (\<forall>r \<in> set (rows df). DATE_TIME r = None \<longrightarrow>
           map_of (cells r) ''DATE'' = Some Missing \<and> map_of (cells r) ''HOUR'' = Some Missing)"
    by (auto simp: df index_def process_row_cells)
qed

theorem load_unparseable_rows_witness:
  "load_and_process_data
     (Csv [(''Date-Hour(NMT)'', Object), (''SystemProduction'', Numeric)]
          [[(''Date-Hour(NMT)'', Txt ''05.06.2020-14:30''), (''SystemProduction'', Num 5)],
           [(''Date-Hour(NMT)'', Txt ''garbage''), (''SystemProduction'', Num 6)]])
   = (None,
      \<lparr>columns = [(''SystemProduction'', Numeric), (''DATE'', Object), (''HOUR'', Numeric)],
       rows = [\<lparr>DATE_TIME = Some (2020, 6, 5, 14, 30),
                cells = [(''SystemProduction'', Num 5), (''DATE'', DateV (2020, 6, 5)),
                         (''HOUR'', Num 14)]\<rparr>,
               \<lparr>DATE_TIME = None,
                cells = [(''SystemProduction'', Num 6), (''DATE'', Missing),
                         (''HOUR'', Missing)]\<rparr>]\<rparr>)
   \<and> index
      \<lparr>columns = [(''SystemProduction'', Numeric), (''DATE'', Object), (''HOUR'', Numeric)],
       rows = [\<lparr>DATE_TIME = Some (2020, 6, 5, 14, 30),
                cells = [(''SystemProduction'', Num 5), (''DATE'', DateV (2020, 6, 5)),
                         (''HOUR'', Num 14)]\<rparr>,
               \<lparr>DATE_TIME = None,
                cells = [(''SystemProduction'', Num 6), (''DATE'', Missing),
                         (''HOUR'', Missing)]\<rparr>]\<rparr>
     = [Some (2020, 6, 5, 14, 30), None]"
proof -
  let ?cols = "[(''Date-Hour(NMT)'', Object), (''SystemProduction'', Numeric)]"
  let ?rs = "[[(''Date-Hour(NMT)'', Txt ''05.06.2020-14:30''), (''SystemProduction'', Num 5)],
              [(''Date-Hour(NMT)'', Txt ''garbage''), (''SystemProduction'', Num 6)]]"
  let ?df = "\<lparr>columns = [(''SystemProduction'', Numeric), (''DATE'', Object), (''HOUR'', Numeric)],
       rows = [\<lparr>DATE_TIME = Some (2020, 6, 5, 14, 30),
                cells = [(''SystemProduction'', Num 5), (''DATE'', DateV (2020, 6, 5)),
                         (''HOUR'', Num 14)]\<rparr>,
               \<lparr>DATE_TIME = None,
                cells = [(''SystemProduction'', Num 6), (''DATE'', Missing),
                         (''HOUR'', Missing)]\<rparr>]\<rparr>"
  have l: "load_and_process_data (Csv ?cols ?rs) = (None, ?df)"
    by code_simp
  have e: "map (\<lambda>r. case map_of (rename r) ''DATE_TIME'' of None \<Rightarrow> None
                       | Some c \<Rightarrow> to_datetime_cell c) ?rs
           = [Some (2020, 6, 5, 14, 30), None]"
    by code_simp
  from load_unparseable_rows [of ?cols ?rs ?df] l
  have "index ?df = map (\<lambda>r. case map_of (rename r) ''DATE_TIME'' of None \<Rightarrow> None
                       | Some c \<Rightarrow> to_datetime_cell c) ?rs"
    by blast
  with e l show ?thesis by (simp only:) 
qed

subsection \<open>Column classification\<close>

lemma py_in_sublist: "py_in kw s \<longleftrightarrow> sublist kw s"
  by (induction s) (auto simp: sublist_Cons_right)

text \<open>
  C9. The generation candidates are exactly the columns, in table order, whose
  upper-cased name contains one of GENERATION, YIELD, POWER, PRODUCTION; a table whose
  column names are SystemProduction, Radiation, Temperature has the single candidate
  SystemProduction; the correlation default is Radiation when that is a numeric
  column, and the first numeric column otherwise (none when there is no numeric column).
\<close>

theorem column_classifier:
  "generation_cols df =
     [col \<leftarrow> map fst (columns df).
        \<exists>kw \<in> {''GENERATION'', ''YIELD'', ''POWER'', ''PRODUCTION''}.
          \<exists>pre suf. upper col = pre @ kw @ suf]
   \<and> (map fst (columns df) = [''SystemProduction'', ''Radiation'', ''Temperature'']
        \<longrightarrow> generation_cols df = [''SystemProduction''])
   \<and> (''Radiation'' \<in> set (numeric_cols df) \<longrightarrow> correlation_default df = Some ''Radiation'')
   \<and> (''Radiation'' \<notin> set (numeric_cols df) \<longrightarrow>
        correlation_default df = (case numeric_cols df of [] \<Rightarrow> None | c # _ \<Rightarrow> Some c))"
proof (intro conjI impI)
  show "generation_cols df =
     [col \<leftarrow> map fst (columns df).
        \<exists>kw \<in> {''GENERATION'', ''YIELD'', ''POWER'', ''PRODUCTION''}.
          \<exists>pre suf. upper col = pre @ kw @ suf]"
    unfolding generation_cols_def
    by (rule filter_cong) (auto simp: py_in_sublist sublist_def)
  show "generation_cols df = [''SystemProduction'']"
    if "map fst (columns df) = [''SystemProduction'', ''Radiation'', ''Temperature'']"
    using that by (simp add: generation_cols_def upper_def is_ascii_lower_def)
  show "correlation_default df = Some ''Radiation''" if "''Radiation'' \<in> set (numeric_cols df)"
    using that list_index_nth [of "''Radiation''" "numeric_cols df"]
    by (auto simp: correlation_default_def default_col_index_def Let_def)
  show "correlation_default df = (case numeric_cols df of [] \<Rightarrow> None | c # _ \<Rightarrow> Some c)"
    if "''Radiation'' \<notin> set (numeric_cols df)"
    using that
    by (cases "numeric_cols df") (simp_all add: correlation_default_def default_col_index_def)
qed

theorem column_classifier_witness:
  "generation_cols
     \<lparr>columns = [(''SystemProduction'', Numeric), (''Radiation'', Numeric), (''Temperature'', Numeric)],
      rows = []\<rparr> = [''SystemProduction'']
   \<and> correlation_default
     \<lparr>columns = [(''SystemProduction'', Numeric), (''Radiation'', Numeric), (''Temperature'', Numeric)],
      rows = []\<rparr> = Some ''Radiation''
   \<and> correlation_default
     \<lparr>columns = [(''Label'', Object), (''Temperature'', Numeric), (''HOUR'', Numeric)],
      rows = []\<rparr> = Some ''Temperature''"
proof -
  let ?A = "\<lparr>columns = [(''SystemProduction'', Numeric), (''Radiation'', Numeric),
      (''Temperature'', Numeric)], rows = []\<rparr>"
  let ?B = "\<lparr>columns = [(''Label'', Object), (''Temperature'', Numeric),
      (''HOUR'', Numeric)], rows = []\<rparr>"
  have "generation_cols ?A = [''SystemProduction'']"
    using column_classifier [of ?A, THEN conjunct2, THEN conjunct1] by simp
  moreover have "correlation_default ?A = Some ''Radiation''"
    using column_classifier [of ?A, THEN conjunct2, THEN conjunct2, THEN conjunct1]
    by (simp add: numeric_cols_def)
  moreover have "correlation_default ?B = Some ''Temperature''"
    using column_classifier [of ?B, THEN conjunct2, THEN conjunct2, THEN conjunct2]
    by (simp add: numeric_cols_def)
  ultimately show ?thesis by simp
qed

subsection \<open>Hourly profile\<close>

lemma hourly_avg_keys:
  "set (map fst (hourly_avg df c)) = {h. \<exists>r \<in> set (rows df). col_value ''HOUR'' r = Some h}"
  by (auto simp: hourly_avg_def comp_def)

lemma hourly_avg_lookup:
  "map_of (hourly_avg df c) h =
     (if \<exists>r \<in> set (rows df). col_value ''HOUR'' r = Some h
      then Some (mean_skipna [col_value c r. r \<leftarrow> rows df, col_value ''HOUR'' r = Some h])
      else None)"
  by (auto simp: hourly_avg_def map_of_map_restrict restrict_map_def)

lemma somes_map: "\<forall>x \<in> set xs. f x \<noteq> None \<Longrightarrow> [v. Some v \<leftarrow> map f xs] = map (\<lambda>x. the (f x)) xs"
  by (induction xs) auto

lemma concat_map_filter: "concat (map (\<lambda>r. if P r then [f r] else []) xs) = map f (filter P xs)"
  by (induction xs) auto

text \<open>
  C8. The hourly profile has one entry per hour that occurs in the filtered rows, in
  ascending order; an hour with no row has no entry. The value of an hour is the mean of
  the selected column over the rows of that hour, taken over their non-missing values
  (as the column mean is); when every row of the hour has a value, it is their sum
  divided by the number of those rows.
\<close>

theorem hourly_profile:
  "distinct (map fst (hourly_avg df c)) \<and> sorted (map fst (hourly_avg df c))
   \<and> (h \<in> fst ` set (hourly_avg df c) \<longleftrightarrow> (\<exists>r \<in> set (rows df). col_value ''HOUR'' r = Some h))
   \<and> ((\<exists>r \<in> set (rows df). col_value ''HOUR'' r = Some h) \<longrightarrow>
        map_of (hourly_avg df c) h =
          Some (mean_skipna (map (col_value c) [r \<leftarrow> rows df. col_value ''HOUR'' r = Some h])))
   \<and> ((\<exists>r \<in> set (rows df). col_value ''HOUR'' r = Some h)
        \<and> (\<forall>r \<in> set (rows df). col_value ''HOUR'' r = Some h \<longrightarrow> col_value c r \<noteq> None) \<longrightarrow>
        map_of (hourly_avg df c) h =
          Some (Some ((\<Sum>r \<leftarrow> [r \<leftarrow> rows df. col_value ''HOUR'' r = Some h]. the (col_value c r))
                      / real (length [r \<leftarrow> rows df. col_value ''HOUR'' r = Some h]))))"
proof (intro conjI impI)
  show "distinct (map fst (hourly_avg df c))" "sorted (map fst (hourly_avg df c))"
    by (simp_all add: hourly_avg_def comp_def)
  show "h \<in> fst ` set (hourly_avg df c) \<longleftrightarrow> (\<exists>r \<in> set (rows df). col_value ''HOUR'' r = Some h)"
    using hourly_avg_keys [of df c] by auto
  let ?g = "[r \<leftarrow> rows df. col_value ''HOUR'' r = Some h]"
  show l: "map_of (hourly_avg df c) h = Some (mean_skipna (map (col_value c) ?g))"
    if "\<exists>r \<in> set (rows df). col_value ''HOUR'' r = Some h"
    using that by (simp add: hourly_avg_lookup concat_map_filter)
  show "map_of (hourly_avg df c) h =
      Some (Some ((\<Sum>r \<leftarrow> ?g. the (col_value c r)) / real (length ?g)))"
    if a: "(\<exists>r \<in> set (rows df). col_value ''HOUR'' r = Some h)
        \<and> (\<forall>r \<in> set (rows df). col_value ''HOUR'' r = Some h \<longrightarrow> col_value c r \<noteq> None)"
  proof -
    from a have "\<forall>r \<in> set ?g. col_value c r \<noteq> None" by simp
    then have "[v. Some v \<leftarrow> map (col_value c) ?g] = map (\<lambda>r. the (col_value c r)) ?g"
      by (rule somes_map)
    moreover from a have "?g \<noteq> []" by (auto simp: filter_empty_conv)
    ultimately have "mean_skipna (map (col_value c) ?g)
        = Some ((\<Sum>r \<leftarrow> ?g. the (col_value c r)) / real (length ?g))"
      by (simp add: mean_skipna_def)
    with l a show ?thesis by simp
  qed
qed

theorem hourly_profile_witness:
  "map_of (hourly_avg
     \<lparr>columns = [(''SystemProduction'', Numeric), (''DATE'', Object), (''HOUR'', Numeric)],
      rows = [\<lparr>DATE_TIME = Some (2020, 6, 5, 14, 30),
               cells = [(''SystemProduction'', Num 5), (''DATE'', DateV (2020, 6, 5)), (''HOUR'', Num 14)]\<rparr>,
              \<lparr>DATE_TIME = Some (2020, 6, 6, 9, 0),
               cells = [(''SystemProduction'', Num 1), (''DATE'', DateV (2020, 6, 6)), (''HOUR'', Num 9)]\<rparr>,
              \<lparr>DATE_TIME = Some (2020, 6, 6, 14, 0),
               cells = [(''SystemProduction'', Num 4), (''DATE'', DateV (2020, 6, 6)), (''HOUR'', Num 14)]\<rparr>]\<rparr>
     ''SystemProduction'') 14 = Some (Some (9 / 2))"
proof -
  let ?df = "\<lparr>columns = [(''SystemProduction'', Numeric), (''DATE'', Object), (''HOUR'', Numeric)],
      rows = [\<lparr>DATE_TIME = Some (2020, 6, 5, 14, 30),
               cells = [(''SystemProduction'', Num 5), (''DATE'', DateV (2020, 6, 5)), (''HOUR'', Num 14)]\<rparr>,
              \<lparr>DATE_TIME = Some (2020, 6, 6, 9, 0),
               cells = [(''SystemProduction'', Num 1), (''DATE'', DateV (2020, 6, 6)), (''HOUR'', Num 9)]\<rparr>,
              \<lparr>DATE_TIME = Some (2020, 6, 6, 14, 0),
               cells = [(''SystemProduction'', Num 4), (''DATE'', DateV (2020, 6, 6)), (''HOUR'', Num 14)]\<rparr>]\<rparr>"
  let ?g = "[r \<leftarrow> rows ?df. col_value ''HOUR'' r = Some 14]"
  have 1: "\<exists>r \<in> set (rows ?df). col_value ''HOUR'' r = Some 14"
    by (simp add: col_value_def)
  have 2: "\<forall>r \<in> set (rows ?df). col_value ''HOUR'' r = Some 14 \<longrightarrow> col_value ''SystemProduction'' r \<noteq> None"
    by (simp add: col_value_def)
  have 3: "(\<Sum>r \<leftarrow> ?g. the (col_value ''SystemProduction'' r)) / real (length ?g) = 9 / 2"
    by (simp add: col_value_def)
  from hourly_profile [of ?df "''SystemProduction''" 14] 1 2
  have "map_of (hourly_avg ?df ''SystemProduction'') 14 =
          Some (Some ((\<Sum>r \<leftarrow> ?g. the (col_value ''SystemProduction'' r)) / real (length ?g)))"
    by blast
  then show ?thesis unfolding 3 .
qed

subsection \<open>Date-range filter\<close>

lemma sorted_takeWhile_less_nth:
  fixes ts :: "'a::linorder list"
  assumes "sorted ts" "i < length ts"
  shows "i < length (takeWhile (\<lambda>t. t < x) ts) \<longleftrightarrow> ts ! i < x"
proof
  assume "i < length (takeWhile (\<lambda>t. t < x) ts)"
  then have "takeWhile (\<lambda>t. t < x) ts ! i \<in> set (takeWhile (\<lambda>t. t < x) ts)"
    and "takeWhile (\<lambda>t. t < x) ts ! i = ts ! i"
    by (rule nth_mem, rule takeWhile_nth)
  then show "ts ! i < x" using set_takeWhileD by fastforce
next
  assume lt: "ts ! i < x"
  show "i < length (takeWhile (\<lambda>t. t < x) ts)"
  proof (rule ccontr)
    let ?a = "length (takeWhile (\<lambda>t. t < x) ts)"
    assume "\<not> i < ?a"
    then have le: "?a \<le> i" by simp
    with assms(2) have "?a < length ts" by simp
    then have "\<not> ts ! ?a < x" by (rule nth_length_takeWhile)
    moreover have "ts ! ?a \<le> ts ! i" using assms le by (simp add: sorted_nth_mono)
    ultimately show False using lt by simp
  qed
qed

lemma sorted_takeWhile_le_nth:
  fixes ts :: "'a::linorder list"
  assumes "sorted ts" "i < length ts"
  shows "i < length (takeWhile (\<lambda>t. t \<le> x) ts) \<longleftrightarrow> ts ! i \<le> x"
proof
  assume "i < length (takeWhile (\<lambda>t. t \<le> x) ts)"
  then have "takeWhile (\<lambda>t. t \<le> x) ts ! i \<in> set (takeWhile (\<lambda>t. t \<le> x) ts)"
    and "takeWhile (\<lambda>t. t \<le> x) ts ! i = ts ! i"
    by (rule nth_mem, rule takeWhile_nth)
  then show "ts ! i \<le> x" using set_takeWhileD by fastforce
next
  assume lt: "ts ! i \<le> x"
  show "i < length (takeWhile (\<lambda>t. t \<le> x) ts)"
  proof (rule ccontr)
    let ?a = "length (takeWhile (\<lambda>t. t \<le> x) ts)"
    assume "\<not> i < ?a"
    then have le: "?a \<le> i" by simp
    with assms(2) have "?a < length ts" by simp
    then have "\<not> ts ! ?a \<le> x" by (rule nth_length_takeWhile)
    moreover have "ts ! ?a \<le> ts ! i" using assms le by (simp add: sorted_nth_mono)
    ultimately show False using lt by simp
  qed
qed

lemma filter_upt_interval: "b \<le> n \<Longrightarrow> [i \<leftarrow> [0..<n]. a \<le> i \<and> i < b] = [a..<b]"
proof (induction n arbitrary: b)
  case 0
  then show ?case by simp
next
  case (Suc n)
  show ?case
  proof (cases "b = Suc n")
    case True
    show ?thesis
    proof (cases "a \<le> n")
      case le: True
      have "[i \<leftarrow> [0..<n]. a \<le> i \<and> i < b] = [i \<leftarrow> [0..<n]. a \<le> i \<and> i < n]"
        by (rule filter_cong) (auto simp: True)
      also have "\<dots> = [a..<n]" by (rule Suc.IH) simp
      finally show ?thesis using le True by simp
    next
      case False
      then have "[i \<leftarrow> [0..<n]. a \<le> i \<and> i < b] = []"
        by (auto simp: filter_empty_conv)
      with False True show ?thesis by simp
    qed
  next
    case False
    with Suc.prems have "b \<le> n" by simp
    from Suc.IH [OF this] this show ?thesis by simp
  qed
qed

lemma upt_ends: "a < b \<Longrightarrow> hd [a..<b] = a \<and> Suc (last [a..<b]) = b \<and> [a..<b] \<noteq> []"
  by (simp add: last_upt upt_rec [of a b])

lemma positions_sorted:
  assumes "is_monotonic_increasing idx"
  shows "positions idx x =
     [length (takeWhile (\<lambda>t. t < x) (map the idx))..<length (takeWhile (\<lambda>t. t \<le> x) (map the idx))]"
proof -
  let ?ts = "map the idx"
  let ?a = "length (takeWhile (\<lambda>t. t < x) ?ts)" and ?b = "length (takeWhile (\<lambda>t. t \<le> x) ?ts)"
  from assms have s: "sorted ?ts" and n: "None \<notin> set idx"
    by (auto simp: is_monotonic_increasing_def)
  have "idx ! i = Some x \<longleftrightarrow> ?a \<le> i \<and> i < ?b" if "i < length idx" for i
  proof -
    from n that have "idx ! i \<noteq> None" by (metis nth_mem)
    then have "idx ! i = Some x \<longleftrightarrow> ?ts ! i = x" using that by auto
    also have "\<dots> \<longleftrightarrow> \<not> ?ts ! i < x \<and> ?ts ! i \<le> x" by auto
    also have "\<dots> \<longleftrightarrow> ?a \<le> i \<and> i < ?b"
      using sorted_takeWhile_less_nth [OF s, of i x] sorted_takeWhile_le_nth [OF s, of i x] that
      by auto
    finally show ?thesis .
  qed
  then have "positions idx x = [i \<leftarrow> [0..<length idx]. ?a \<le> i \<and> i < ?b]"
    unfolding positions_def by (intro filter_cong) auto
  also have "\<dots> = [?a..<?b]"
    by (rule filter_upt_interval) (metis length_map length_takeWhile_le)
  finally show ?thesis .
qed

lemma get_slice_bound_sorted:
  assumes "is_monotonic_increasing idx"
  shows "get_slice_bound idx x sd = Inr (searchsorted (map the idx) x sd)"
proof -
  let ?ts = "map the idx"
  let ?a = "length (takeWhile (\<lambda>t. t < x) ?ts)" and ?b = "length (takeWhile (\<lambda>t. t \<le> x) ?ts)"
  note p = positions_sorted [OF assms, of x]
  show ?thesis
  proof (cases "?a < ?b")
    case True
    then have "hd [?a..<?b] = ?a \<and> Suc (last [?a..<?b]) = ?b \<and> [?a..<?b] \<noteq> []"
      by (rule upt_ends)
    then show ?thesis
      by (cases sd) (simp_all add: get_slice_bound_def p Let_def del: upt_eq_Nil_conv)
  next
    case False
    have "?a \<le> ?b"
    proof -
      have "takeWhile (\<lambda>t. t < x) ?ts = takeWhile (\<lambda>t. t < x) (takeWhile (\<lambda>t. t \<le> x) ?ts)"
        by (induction idx) auto
      then have "?a = length (takeWhile (\<lambda>t. t < x) (takeWhile (\<lambda>t. t \<le> x) ?ts))" by simp
      also have "\<dots> \<le> ?b" by (rule length_takeWhile_le)
      finally show ?thesis .
    qed
    with False have "?a = ?b" by simp
    then show ?thesis using assms
      by (cases sd) (simp_all add: get_slice_bound_def p)
  qed
qed

lemma sorted_slice_filter:
  assumes "sorted (map k xs)"
  shows "take (length (takeWhile (\<lambda>t. t \<le> e) (map k xs)) - length (takeWhile (\<lambda>t. t < s) (map k xs)))
           (drop (length (takeWhile (\<lambda>t. t < s) (map k xs))) xs)
         = [r \<leftarrow> xs. s \<le> k r \<and> k r \<le> (e::'a::linorder)]"
  using assms
proof (induction xs)
  case Nil
  then show ?case by simp
next
  case (Cons x xs)
  then have ge: "\<forall>r \<in> set xs. k x \<le> k r" and s: "sorted (map k xs)" by auto
  show ?case
  proof (cases "k x < s")
    case lt: True
    show ?thesis
    proof (cases "k x \<le> e")
      case True
      with lt Cons.IH [OF s] show ?thesis by simp
    next
      case False
      with ge have "[r \<leftarrow> xs. s \<le> k r \<and> k r \<le> e] = []"
        by (auto simp: filter_empty_conv)
      with lt False show ?thesis by simp
    qed
  next
    case ge_s: False
    show ?thesis
    proof (cases "k x \<le> e")
      case True
      have "takeWhile (\<lambda>r. k r \<le> e) xs = [r \<leftarrow> xs. k r \<le> e]"
      proof (rule takeWhile_eq_filter)
        fix r assume "r \<in> set (dropWhile (\<lambda>r. k r \<le> e) xs)"
        then show "\<not> k r \<le> e"
          using s by (induction xs) (auto split: if_splits)
      qed
      moreover have "[r \<leftarrow> xs. k r \<le> e] = [r \<leftarrow> xs. s \<le> k r \<and> k r \<le> e]"
        using ge ge_s by (intro filter_cong) auto
      moreover have "take (length (takeWhile (\<lambda>r. k r \<le> e) xs)) xs = takeWhile (\<lambda>r. k r \<le> e) xs"
        by (simp add: takeWhile_eq_take [symmetric])
      ultimately show ?thesis using ge_s True
        by (simp add: takeWhile_map comp_def)
    next
      case False
      with ge have "[r \<leftarrow> xs. s \<le> k r \<and> k r \<le> e] = []"
        by (auto simp: filter_empty_conv)
      with ge_s False show ?thesis by simp
    qed
  qed
qed

lemma loc_slice_sorted:
  assumes "is_monotonic_increasing (index df)"
  shows "loc_slice df s e =
     Inr (df\<lparr>rows := [r \<leftarrow> rows df. s \<le> the (DATE_TIME r) \<and> the (DATE_TIME r) \<le> e]\<rparr>)"
proof -
  have m: "map the (index df) = map (\<lambda>r. the (DATE_TIME r)) (rows df)"
    by (simp add: index_def)
  from assms have "sorted (map (\<lambda>r. the (DATE_TIME r)) (rows df))"
    by (simp add: is_monotonic_increasing_def m)
  from sorted_slice_filter [OF this, of e s] show ?thesis
    by (simp add: loc_slice_def get_slice_bound_sorted [OF assms] m)
qed

lemma get_slice_bound_absent:
  assumes "\<not> is_monotonic_increasing idx" "\<not> is_monotonic_decreasing idx" "Some x \<notin> set idx"
  shows "get_slice_bound idx x sd = Inl KeyError"
proof -
  from assms(3) have "positions idx x = []"
    unfolding positions_def filter_empty_conv by (metis atLeastLessThan_iff nth_mem set_upt)
  with assms show ?thesis by (simp add: get_slice_bound_def)
qed

lemma get_slice_bound_error: "get_slice_bound idx x sd = Inl e \<Longrightarrow> e = KeyError"
  by (cases e) simp

lemma loc_slice_absent:
  assumes "\<not> is_monotonic_increasing (index df)" "\<not> is_monotonic_decreasing (index df)"
    "Some s \<notin> set (index df) \<or> Some e \<notin> set (index df)"
  shows "loc_slice df s e = Inl KeyError"
proof (cases "get_slice_bound (index df) s Left")
  case (Inl a)
  then show ?thesis by (cases a) (simp add: loc_slice_def)
next
  case (Inr i)
  with assms have "Some e \<notin> set (index df)"
    using get_slice_bound_absent [OF assms(1,2), of s Left] by auto
  from get_slice_bound_absent [OF assms(1,2) this, of Right] Inr show ?thesis
    by (simp add: loc_slice_def)
qed


text \<open>
  C2, evaluated. With start = end = 2020-06-05 the filter keeps the row at 00:00 of
  that day and drops the row at 14:30 of the same day: the end date stands for its
  midnight, not for the end of its day.
\<close>

theorem range_filter_single_day:
  "df_filtered
     \<lparr>columns = [(''SystemProduction'', Numeric), (''DATE'', Object), (''HOUR'', Numeric)],
      rows = [\<lparr>DATE_TIME = Some (2020, 6, 5, 0, 0),
               cells = [(''SystemProduction'', Num 5), (''DATE'', DateV (2020, 6, 5)), (''HOUR'', Num 0)]\<rparr>,
              \<lparr>DATE_TIME = Some (2020, 6, 5, 14, 30),
               cells = [(''SystemProduction'', Num 6), (''DATE'', DateV (2020, 6, 5)), (''HOUR'', Num 14)]\<rparr>,
              \<lparr>DATE_TIME = Some (2020, 6, 6, 0, 0),
               cells = [(''SystemProduction'', Num 7), (''DATE'', DateV (2020, 6, 6)), (''HOUR'', Num 0)]\<rparr>]\<rparr>
     (2020, 6, 5) (2020, 6, 5)
   = Inr
     \<lparr>columns = [(''SystemProduction'', Numeric), (''DATE'', Object), (''HOUR'', Numeric)],
      rows = [\<lparr>DATE_TIME = Some (2020, 6, 5, 0, 0),
               cells = [(''SystemProduction'', Num 5), (''DATE'', DateV (2020, 6, 5)), (''HOUR'', Num 0)]\<rparr>]\<rparr>"
  by code_simp

lemma unsorted_table_raises:
  "\<exists>tbl a b.
      valid_index tbl \<and> \<not> is_monotonic_increasing (index tbl)
      \<and> (\<exists>r \<in> set (rows tbl). \<exists>t. DATE_TIME r = Some t \<and> midnight a \<le> t \<and> t \<le> midnight b)
      \<and> df_filtered tbl a b = Inl KeyError"
proof (intro exI conjI)
  let ?u = "\<lparr>columns = [(''SystemProduction'', Numeric), (''DATE'', Object), (''HOUR'', Numeric)],
      rows = [\<lparr>DATE_TIME = Some (2020, 6, 2, 10, 0),
               cells = [(''SystemProduction'', Num 1), (''DATE'', DateV (2020, 6, 2)), (''HOUR'', Num 10)]\<rparr>,
              \<lparr>DATE_TIME = Some (2020, 6, 1, 10, 0),
               cells = [(''SystemProduction'', Num 2), (''DATE'', DateV (2020, 6, 1)), (''HOUR'', Num 10)]\<rparr>,
              \<lparr>DATE_TIME = Some (2020, 6, 3, 10, 0),
               cells = [(''SystemProduction'', Num 3), (''DATE'', DateV (2020, 6, 3)), (''HOUR'', Num 10)]\<rparr>]\<rparr>"
  show "valid_index ?u" by code_simp
  show "\<not> is_monotonic_increasing (index ?u)"
    by (simp add: is_monotonic_increasing_def index_def)
  show "\<exists>r \<in> set (rows ?u). \<exists>t. DATE_TIME r = Some t
      \<and> midnight (2020, 6, 1) \<le> t \<and> t \<le> midnight (2020, 6, 4)"
    by simp
  show "df_filtered ?u (2020, 6, 1) (2020, 6, 4) = Inl KeyError" by code_simp
qed

text \<open>
  C10. On an index in ascending order the filter never raises and keeps exactly the
  rows from the start date's midnight to the end date's midnight. On an index that is
  neither ascending nor descending it raises \<open>KeyError\<close> whenever one of the two
  midnights is not itself a label of the index. There is a table, not in ascending
  order, with a row between the two midnights, on which the filter raises.
\<close>

theorem range_filter_needs_sorted_index:
  "(is_monotonic_increasing (index df) \<longrightarrow>
      df_filtered df d0 d1 =
        Inr (df\<lparr>rows := [r \<leftarrow> rows df. midnight d0 \<le> the (DATE_TIME r)
                                      \<and> the (DATE_TIME r) \<le> midnight d1]\<rparr>))
   \<and> (\<not> is_monotonic_increasing (index df) \<and> \<not> is_monotonic_decreasing (index df)
       \<and> (Some (midnight d0) \<notin> set (index df) \<or> Some (midnight d1) \<notin> set (index df)) \<longrightarrow>
      df_filtered df d0 d1 = Inl KeyError)
   \<and> (\<exists>tbl a b.
        valid_index tbl \<and> \<not> is_monotonic_increasing (index tbl)
        \<and> (\<exists>r \<in> set (rows tbl). \<exists>t. DATE_TIME r = Some t \<and> midnight a \<le> t \<and> t \<le> midnight b)
        \<and> df_filtered tbl a b = Inl KeyError)"
  unfolding df_filtered_def
  using loc_slice_sorted [of df "midnight d0" "midnight d1"]
    loc_slice_absent [of df "midnight d0" "midnight d1"]
    unsorted_table_raises [unfolded df_filtered_def]
  by blast

text \<open>
  A table loaded from a file whose rows are out of chronological order: all three rows
  lie between the two dates, and the filter raises. The same rows in ascending order
  are returned.
\<close>

theorem range_filter_needs_sorted_index_witness:
  "load_and_process_data
     (Csv [(''Date-Hour(NMT)'', Object), (''SystemProduction'', Numeric)]
          [[(''Date-Hour(NMT)'', Txt ''02.06.2020-10:00''), (''SystemProduction'', Num 1)],
           [(''Date-Hour(NMT)'', Txt ''01.06.2020-10:00''), (''SystemProduction'', Num 2)],
           [(''Date-Hour(NMT)'', Txt ''03.06.2020-10:00''), (''SystemProduction'', Num 3)]])
   = (None,
     \<lparr>columns = [(''SystemProduction'', Numeric), (''DATE'', Object), (''HOUR'', Numeric)],
      rows = [\<lparr>DATE_TIME = Some (2020, 6, 2, 10, 0),
               cells = [(''SystemProduction'', Num 1), (''DATE'', DateV (2020, 6, 2)), (''HOUR'', Num 10)]\<rparr>,
              \<lparr>DATE_TIME = Some (2020, 6, 1, 10, 0),
               cells = [(''SystemProduction'', Num 2), (''DATE'', DateV (2020, 6, 1)), (''HOUR'', Num 10)]\<rparr>,
              \<lparr>DATE_TIME = Some (2020, 6, 3, 10, 0),
               cells = [(''SystemProduction'', Num 3), (''DATE'', DateV (2020, 6, 3)), (''HOUR'', Num 10)]\<rparr>]\<rparr>)
   \<and> df_filtered
     \<lparr>columns = [(''SystemProduction'', Numeric), (''DATE'', Object), (''HOUR'', Numeric)],
      rows = [\<lparr>DATE_TIME = Some (2020, 6, 2, 10, 0),
               cells = [(''SystemProduction'', Num 1), (''DATE'', DateV (2020, 6, 2)), (''HOUR'', Num 10)]\<rparr>,
              \<lparr>DATE_TIME = Some (2020, 6, 1, 10, 0),
               cells = [(''SystemProduction'', Num 2), (''DATE'', DateV (2020, 6, 1)), (''HOUR'', Num 10)]\<rparr>,
              \<lparr>DATE_TIME = Some (2020, 6, 3, 10, 0),
               cells = [(''SystemProduction'', Num 3), (''DATE'', DateV (2020, 6, 3)), (''HOUR'', Num 10)]\<rparr>]\<rparr>
     (2020, 6, 1) (2020, 6, 4) = Inl KeyError
   \<and> df_filtered
     \<lparr>columns = [(''SystemProduction'', Numeric), (''DATE'', Object), (''HOUR'', Numeric)],
      rows = [\<lparr>DATE_TIME = Some (2020, 6, 1, 10, 0),
               cells = [(''SystemProduction'', Num 2), (''DATE'', DateV (2020, 6, 1)), (''HOUR'', Num 10)]\<rparr>,
              \<lparr>DATE_TIME = Some (2020, 6, 2, 10, 0),
               cells = [(''SystemProduction'', Num 1), (''DATE'', DateV (2020, 6, 2)), (''HOUR'', Num 10)]\<rparr>,
              \<lparr>DATE_TIME = Some (2020, 6, 3, 10, 0),
               cells = [(''SystemProduction'', Num 3), (''DATE'', DateV (2020, 6, 3)), (''HOUR'', Num 10)]\<rparr>]\<rparr>
     (2020, 6, 1) (2020, 6, 4)
   = Inr
     \<lparr>columns = [(''SystemProduction'', Numeric), (''DATE'', Object), (''HOUR'', Numeric)],
      rows = [\<lparr>DATE_TIME = Some (2020, 6, 1, 10, 0),
               cells = [(''SystemProduction'', Num 2), (''DATE'', DateV (2020, 6, 1)), (''HOUR'', Num 10)]\<rparr>,
              \<lparr>DATE_TIME = Some (2020, 6, 2, 10, 0),
               cells = [(''SystemProduction'', Num 1), (''DATE'', DateV (2020, 6, 2)), (''HOUR'', Num 10)]\<rparr>,
              \<lparr>DATE_TIME = Some (2020, 6, 3, 10, 0),
               cells = [(''SystemProduction'', Num 3), (''DATE'', DateV (2020, 6, 3)), (''HOUR'', Num 10)]\<rparr>]\<rparr>"
proof -
  let ?u = "\<lparr>columns = [(''SystemProduction'', Numeric), (''DATE'', Object), (''HOUR'', Numeric)],
      rows = [\<lparr>DATE_TIME = Some (2020, 6, 2, 10, 0),
               cells = [(''SystemProduction'', Num 1), (''DATE'', DateV (2020, 6, 2)), (''HOUR'', Num 10)]\<rparr>,
              \<lparr>DATE_TIME = Some (2020, 6, 1, 10, 0),
               cells = [(''SystemProduction'', Num 2), (''DATE'', DateV (2020, 6, 1)), (''HOUR'', Num 10)]\<rparr>,
              \<lparr>DATE_TIME = Some (2020, 6, 3, 10, 0),
               cells = [(''SystemProduction'', Num 3), (''DATE'', DateV (2020, 6, 3)), (''HOUR'', Num 10)]\<rparr>]\<rparr>"
  let ?s = "\<lparr>columns = [(''SystemProduction'', Numeric), (''DATE'', Object), (''HOUR'', Numeric)],
      rows = [\<lparr>DATE_TIME = Some (2020, 6, 1, 10, 0),
               cells = [(''SystemProduction'', Num 2), (''DATE'', DateV (2020, 6, 1)), (''HOUR'', Num 10)]\<rparr>,
              \<lparr>DATE_TIME = Some (2020, 6, 2, 10, 0),
               cells = [(''SystemProduction'', Num 1), (''DATE'', DateV (2020, 6, 2)), (''HOUR'', Num 10)]\<rparr>,
              \<lparr>DATE_TIME = Some (2020, 6, 3, 10, 0),
               cells = [(''SystemProduction'', Num 3), (''DATE'', DateV (2020, 6, 3)), (''HOUR'', Num 10)]\<rparr>]\<rparr>"
  have l: "load_and_process_data
     (Csv [(''Date-Hour(NMT)'', Object), (''SystemProduction'', Numeric)]
          [[(''Date-Hour(NMT)'', Txt ''02.06.2020-10:00''), (''SystemProduction'', Num 1)],
           [(''Date-Hour(NMT)'', Txt ''01.06.2020-10:00''), (''SystemProduction'', Num 2)],
           [(''Date-Hour(NMT)'', Txt ''03.06.2020-10:00''), (''SystemProduction'', Num 3)]])
     = (None, ?u)"
    by code_simp
  have u: "\<not> is_monotonic_increasing (index ?u)" "\<not> is_monotonic_decreasing (index ?u)"
    "Some (midnight (2020, 6, 1)) \<notin> set (index ?u)"
    by (simp_all add: is_monotonic_increasing_def is_monotonic_decreasing_def index_def)
  have 1: "df_filtered ?u (2020, 6, 1) (2020, 6, 4) = Inl KeyError"
    using range_filter_needs_sorted_index [of ?u "(2020, 6, 1)" "(2020, 6, 4)", THEN conjunct2,
        THEN conjunct1] u
    by blast
  have s: "is_monotonic_increasing (index ?s)"
    by (simp add: is_monotonic_increasing_def index_def)
  have f: "?s\<lparr>rows := [r \<leftarrow> rows ?s. midnight (2020, 6, 1) \<le> the (DATE_TIME r)
                                      \<and> the (DATE_TIME r) \<le> midnight (2020, 6, 4)]\<rparr> = ?s"
    by simp
  have 2: "df_filtered ?s (2020, 6, 1) (2020, 6, 4) = Inr ?s"
    using range_filter_needs_sorted_index [of ?s "(2020, 6, 1)" "(2020, 6, 4)", THEN conjunct1] s
    unfolding f by blast
  from l 1 2 show ?thesis by (simp only:)
qed

subsection \<open>Calendar\<close>

lemma days_in_month_bounds: "28 \<le> days_in_month y m \<and> days_in_month y m \<le> 31"
  by (simp add: days_in_month_def)

lemma div_step:
  fixes y k :: int
  assumes "0 < k"
  shows "y div k = (y - 1) div k + (if y mod k = 0 then 1 else 0)"
proof (cases "y mod k = 0")
  case True
  then obtain q where q: "y = k * q" by (auto simp: mod_eq_0_iff_dvd)
  then have "y div k = q" using assms by simp
  moreover have "y - 1 = k * (q - 1) + (k - 1)" by (simp add: q algebra_simps)
  then have "(y - 1) div k = q - 1"
    by (rule int_div_pos_eq) (use assms in simp_all)
  ultimately show ?thesis using True by simp
next
  case False
  then have "0 < y mod k" using assms pos_mod_sign [of k y] by linarith
  have "y - 1 = k * (y div k) + (y mod k - 1)" by simp
  moreover have "0 \<le> y mod k - 1" using \<open>0 < y mod k\<close> by linarith
  moreover have "y mod k - 1 < k" using pos_mod_bound [OF assms, of y] by linarith
  ultimately have "(y - 1) div k = y div k"
    by (rule int_div_pos_eq)
  with False show ?thesis by simp
qed

lemma if_count:
  "(B \<Longrightarrow> A) \<Longrightarrow> (C \<Longrightarrow> B) \<Longrightarrow>
   (if A then 1 else 0) - (if B then 1 else 0) + (if C then 1 else 0)
     = (if A \<and> (\<not> B \<or> C) then 1 else (0::int))"
  by (cases A; cases B; cases C; simp)

lemma leap_cases:
  fixes y :: int
  shows "(if y mod 4 = 0 then 1 else 0) - (if y mod 100 = 0 then 1 else 0)
          + (if y mod 400 = 0 then 1 else 0) = (if is_leap y then 1 else (0::int))"
  unfolding is_leap_def
proof (rule if_count)
  have d: "(4::int) dvd 100" "(100::int) dvd 400"
    by (rule dvdI [of _ _ 25], simp, rule dvdI [of _ _ 4], simp)
  show "y mod 4 = 0" if "y mod 100 = 0"
    using that d(1) unfolding mod_eq_0_iff_dvd by (rule dvd_trans [rotated])
  show "y mod 100 = 0" if "y mod 400 = 0"
    using that d(2) unfolding mod_eq_0_iff_dvd by (rule dvd_trans [rotated])
qed

lemma days_before_year_Suc:
  "days_before_year (y + 1) = days_before_year y + 365 + (if is_leap y then 1 else 0)"
proof -
  define a where "a = (y - 1) div 4"
  define b where "b = (y - 1) div 100"
  define c where "c = (y - 1) div 400"
  define p where "p = (if y mod 4 = 0 then 1 else (0::int))"
  define q where "q = (if y mod 100 = 0 then 1 else (0::int))"
  define r where "r = (if y mod 400 = 0 then 1 else (0::int))"
  define l where "l = (if is_leap y then 1 else (0::int))"
  have 1: "y div 4 = a + p" "y div 100 = b + q" "y div 400 = c + r"
    unfolding a_def b_def c_def p_def q_def r_def
    by (rule div_step, simp)+
  have 2: "p - q + r = l"
    unfolding p_def q_def r_def l_def by (rule leap_cases)
  have "days_before_year (y + 1) = y * 365 + (a + p) - (b + q) + (c + r)"
    by (simp add: days_before_year_def 1)
  moreover have "days_before_year y = (y - 1) * 365 + a - b + c"
    by (simp add: days_before_year_def a_def b_def c_def)
  ultimately have "days_before_year (y + 1) = days_before_year y + 365 + l"
    using 2 by (simp add: algebra_simps)
  then show ?thesis by (simp only: l_def)
qed


lemma days_before_month_Suc:
  "1 \<le> m \<Longrightarrow> days_before_month y (Suc m) = days_before_month y m + days_in_month y m"
  by (simp add: days_before_month_def)

lemma upt_1_12: "[1..<12] = [1, 2, 3, 4, 5, 6, 7, 8, 9, 10, 11::nat]"
  by code_simp

lemma days_before_month_12: "int (days_before_month y 12) = 334 + (if is_leap y then 1 else 0)"
  unfolding days_before_month_def upt_1_12 by (simp add: days_in_month_def)

lemma next_day_valid: "valid_date dt \<Longrightarrow> valid_date (next_day dt)"
proof (cases dt)
  case (fields y m d)
  assume "valid_date dt"
  with fields have v: "1 \<le> y" "1 \<le> m" "m \<le> 12" "1 \<le> d" "d \<le> days_in_month y m" by simp_all
  have b: "1 \<le> days_in_month y (m + 1)" "1 \<le> days_in_month (y + 1) 1"
    using days_in_month_bounds [of y "m + 1"] days_in_month_bounds [of "y + 1" 1] by linarith+
  show ?thesis
    unfolding fields next_day.simps using v b
    by (simp split: if_splits)
qed

lemma next_day_ordinal: "valid_date dt \<Longrightarrow> ordinal (next_day dt) = ordinal dt + 1"
proof (cases dt)
  case (fields y m d)
  assume "valid_date dt"
  with fields have v: "1 \<le> y" "1 \<le> m" "m \<le> 12" "1 \<le> d" "d \<le> days_in_month y m" by simp_all
  consider (day) "d < days_in_month y m" | (month) "d = days_in_month y m" "m < 12"
    | (year) "d = days_in_month y m" "m = 12"
    using v by linarith
  then show ?thesis
  proof cases
    case day
    then show ?thesis by (simp add: fields)
  next
    case month
    then have "next_day dt = (y, Suc m, 1)" by (simp add: fields)
    then show ?thesis
      using month v by (simp add: fields days_before_month_Suc)
  next
    case year
    then have n: "next_day dt = (y + 1, 1, 1)" by (simp add: fields)
    have "d = 31" using year by (simp add: days_in_month_def)
    then show ?thesis
      unfolding n fields using year(2)
      by (simp add: days_before_year_Suc days_before_month_12) (simp add: days_before_month_def)
  qed
qed

lemma funpow_next_day:
  "valid_date dt \<Longrightarrow> valid_date ((next_day ^^ k) dt) \<and> ordinal ((next_day ^^ k) dt) = ordinal dt + int k"
  by (induction k) (simp_all add: next_day_valid next_day_ordinal)



lemma date_le_cases:
  fixes y y' :: int and m m' d d' :: nat
  shows "(y, m, d) \<le> (y', m', d') \<longleftrightarrow> y < y' \<or> y = y' \<and> (m < m' \<or> m = m' \<and> d \<le> d')"
    and "(y, m, d) < (y', m', d') \<longleftrightarrow> y < y' \<or> y = y' \<and> (m < m' \<or> m = m' \<and> d < d')"
  by (simp_all, linarith+)

lemma next_day_le:
  assumes "valid_date a" "valid_date b" "a < b"
  shows "next_day a \<le> b"
proof -
  obtain y m d where a: "a = (y, m, d)" by (cases a)
  obtain y' m' d' where b: "b = (y', m', d')" by (cases b)
  from assms(1) a have va: "1 \<le> m" "m \<le> 12" "1 \<le> d" "d \<le> days_in_month y m" by simp_all
  from assms(2) b have vb: "1 \<le> m'" "m' \<le> 12" "1 \<le> d'" "d' \<le> days_in_month y' m'" by simp_all
  from assms(3) have lt: "y < y' \<or> y = y' \<and> (m < m' \<or> m = m' \<and> d < d')"
    unfolding a b date_le_cases .
  consider (day) "d < days_in_month y m" | (month) "d = days_in_month y m" "m < 12"
    | (year) "d = days_in_month y m" "m = 12"
    using va by linarith
  then show ?thesis
  proof cases
    case day
    then have "next_day a = (y, m, d + 1)" by (simp add: a)
    moreover have "y < y' \<or> y = y' \<and> (m < m' \<or> m = m' \<and> d + 1 \<le> d')"
      using lt by linarith
    ultimately show ?thesis unfolding b by (simp only: date_le_cases)
  next
    case month
    then have "next_day a = (y, m + 1, 1)" by (simp add: a)
    moreover have "y < y' \<or> y = y' \<and> (m + 1 < m' \<or> m + 1 = m' \<and> 1 \<le> d')"
    proof -
      have "\<not> (y = y' \<and> m = m' \<and> d < d')" using month(1) vb(4) by auto
      with lt vb show ?thesis by linarith
    qed
    ultimately show ?thesis unfolding b by (simp only: date_le_cases)
  next
    case year
    then have "next_day a = (y + 1, 1, 1)" by (simp add: a)
    moreover have "y + 1 < y' \<or> y + 1 = y' \<and> (1 < m' \<or> 1 = m' \<and> 1 \<le> d')"
    proof -
      have "\<not> (y = y' \<and> m = m' \<and> d < d')" using year(1) vb(4) by auto
      with lt vb year(2) show ?thesis by linarith
    qed
    ultimately show ?thesis unfolding b by (simp only: date_le_cases)
  qed
qed

lemma reachable:
  assumes "valid_date a" "valid_date b" "a \<le> b"
  shows "\<exists>k. b = (next_day ^^ k) a"
proof -
  define lin :: "date \<Rightarrow> int" where "lin = (\<lambda>(y, m, d). y * 372 + int m * 31 + int d)"
  have mono: "lin a \<le> lin b" if "valid_date a" "valid_date b" "a \<le> b" for a b
  proof -
    obtain y m d where a: "a = (y, m, d)" by (cases a)
    obtain y' m' d' where b: "b = (y', m', d')" by (cases b)
    from that(1) a have va: "1 \<le> m" "m \<le> 12" "1 \<le> d" "d \<le> days_in_month y m" by simp_all
    from that(2) b have vb: "1 \<le> m'" "m' \<le> 12" "1 \<le> d'" "d' \<le> days_in_month y' m'" by simp_all
    from that(3) have "y < y' \<or> y = y' \<and> (m < m' \<or> m = m' \<and> d \<le> d')"
      unfolding a b date_le_cases .
    then consider "y + 1 \<le> y'" | "y = y'" "m + 1 \<le> m'" | "y = y'" "m = m'" "d \<le> d'"
      by linarith
    then have "y * 372 + int m * 31 + int d \<le> y' * 372 + int m' * 31 + int d'"
    proof cases
      case 1
      have "int m \<le> 12" "int d \<le> 31" "1 \<le> int m'" "1 \<le> int d'"
        using va vb days_in_month_bounds [of y m] by linarith+
      with 1 show ?thesis by linarith
    next
      case 2
      have "int d \<le> 31" "1 \<le> int d'" "int m + 1 \<le> int m'"
        using va vb 2 days_in_month_bounds [of y m] by linarith+
      with 2 show ?thesis by linarith
    next
      case 3
      then show ?thesis by simp
    qed
    then show ?thesis by (simp add: lin_def a b)
  qed
  have step: "lin a < lin (next_day a)" if "valid_date a" for a
  proof -
    obtain y m d where a: "a = (y, m, d)" by (cases a)
    from that a have va: "1 \<le> m" "m \<le> 12" "1 \<le> d" "d \<le> days_in_month y m" by simp_all
    consider (day) "d < days_in_month y m" | (month) "d = days_in_month y m" "m < 12"
      | (year) "d = days_in_month y m" "m = 12"
      using va by linarith
    then show ?thesis
    proof cases
      case day
      then show ?thesis by (simp add: a lin_def)
    next
      case month
      then have "next_day a = (y, m + 1, 1)" by (simp add: a)
      moreover have "y * 372 + int m * 31 + int d < y * 372 + int (m + 1) * 31 + int 1"
      proof -
        have "int d \<le> 31" using va days_in_month_bounds [of y m] by linarith
        then show ?thesis by simp
      qed
      ultimately show ?thesis by (simp add: a lin_def)
    next
      case year
      then have "next_day a = (y + 1, 1, 1)" by (simp add: a)
      moreover have "y * 372 + int m * 31 + int d < (y + 1) * 372 + int 1 * 31 + int 1"
      proof -
        have "int d \<le> 31" "int m = 12" using va year days_in_month_bounds [of y m] by linarith+
        then show ?thesis by simp
      qed
      ultimately show ?thesis by (simp add: a lin_def)
    qed
  qed
  have "\<exists>k. b = (next_day ^^ k) a" if "nat (lin b - lin a) = n" "valid_date a" "a \<le> b" for n a
    using that
  proof (induction n arbitrary: a rule: less_induct)
    case (less n)
    show ?case
    proof (cases "a = b")
      case True
      then have "b = (next_day ^^ 0) a" by simp
      then show ?thesis by blast
    next
      case False
      with less.prems have lt: "a < b" by simp
      let ?a = "next_day a"
      have v: "valid_date ?a" using less.prems(2) by (rule next_day_valid)
      have le: "?a \<le> b" using less.prems(2) assms(2) lt by (rule next_day_le)
      have "lin a < lin ?a" "lin ?a \<le> lin b"
        using step [OF less.prems(2)] mono [OF v assms(2) le] by simp_all
      then have "nat (lin b - lin ?a) < n" using less.prems(1) by linarith
      from less.IH [OF this refl v le] obtain k where "b = (next_day ^^ k) ?a" by blast
      then have "b = (next_day ^^ Suc k) a" by (simp add: funpow_swap1)
      then show ?thesis by blast
    qed
  qed
  with assms show ?thesis by blast
qed

lemma ordinal_mono:
  assumes "valid_date a" "valid_date b" "a \<le> b"
  shows "ordinal a \<le> ordinal b \<and> b = (next_day ^^ nat (ordinal b - ordinal a)) a"
proof -
  from reachable [OF assms] obtain k where k: "b = (next_day ^^ k) a" by blast
  with funpow_next_day [OF assms(1), of k] have "ordinal b = ordinal a + int k" by simp
  with k show ?thesis by simp
qed

lemma ordinal_inj:
  assumes "valid_date a" "valid_date b" "ordinal a = ordinal b"
  shows "a = b"
proof -
  have "a = b" if "valid_date a" "valid_date b" "ordinal a = ordinal b" "a \<le> b" for a b
  proof -
    have "nat (ordinal b - ordinal a) = 0" using that(3) by simp
    with ordinal_mono [OF that(1,2,4), THEN conjunct2] have "b = (next_day ^^ 0) a"
      by (simp only:)
    then show ?thesis by simp
  qed
  from this [OF assms] this [OF assms(2,1) assms(3) [symmetric]] show ?thesis
    using linear [of a b] by blast
qed


subsection \<open>Labels and periods\<close>

lemma timestamp_le_date: "t \<le> t' \<Longrightarrow> date_of t \<le> date_of (t' :: timestamp)"
proof -
  obtain y m d h mi where t: "t = (y, m, d, h, mi)" by (cases t)
  obtain y' m' d' h' mi' where t': "t' = (y', m', d', h', mi')" by (cases t')
  assume "t \<le> t'"
  then have "y < y' \<or> y = y' \<and> (m < m' \<or> m = m' \<and> (d < d' \<or> d = d' \<and> (h, mi) \<le> (h', mi')))"
    unfolding t t' by (simp, linarith)
  then have "y < y' \<or> y = y' \<and> (m < m' \<or> m = m' \<and> d \<le> d')" by linarith
  then show ?thesis unfolding t t' date_of.simps date_le_cases .
qed

lemma is_label_midnight: "is_label f l \<Longrightarrow> valid_date (date_of l) \<and> l = midnight (date_of l)"
  by (cases f; cases l) simp_all

lemma valid_timestamp_date: "valid_timestamp t \<Longrightarrow> valid_date (date_of t)"
  by (cases t) simp

lemma week_decomp:
  obtains q r where "ordinal dt + 6 = 7 * q + int r" "r < 7" "weekday dt = r"
    "(ordinal dt + 6) div 7 = q"
proof
  let ?x = "ordinal dt + 6"
  show "?x = 7 * (?x div 7) + int (nat (?x mod 7))" by simp
  show "nat (?x mod 7) < 7" using pos_mod_bound [of 7 ?x] by simp
  show "weekday dt = nat (?x mod 7)" by (simp add: weekday_def)
  show "?x div 7 = ?x div 7" ..
qed

lemma mod7: "(7 * q + 6) mod 7 = (6::int)" "(7 * q) div 7 = (q::int)"
  by simp_all

lemma week_label:
  assumes "valid_date dt"
  shows "valid_date ((next_day ^^ (6 - weekday dt)) dt)"
    and "ordinal ((next_day ^^ (6 - weekday dt)) dt) = 7 * ((ordinal dt + 6) div 7)"
    and "weekday ((next_day ^^ (6 - weekday dt)) dt) = 6"
proof -
  let ?d = "(next_day ^^ (6 - weekday dt)) dt"
  obtain q r where qr: "ordinal dt + 6 = 7 * q + int r" "r < 7" "weekday dt = r"
    "(ordinal dt + 6) div 7 = q"
    by (rule week_decomp)
  from funpow_next_day [OF assms, of "6 - weekday dt"]
  have o: "ordinal ?d = ordinal dt + int (6 - weekday dt)" by simp
  from funpow_next_day [OF assms, of "6 - weekday dt"]
  show "valid_date ?d" by simp
  from o qr show o7: "ordinal ?d = 7 * ((ordinal dt + 6) div 7)" by linarith
  have "ordinal ?d + 6 = 7 * q + 6" using o7 qr(4) by simp
  then show "weekday ?d = 6" by (simp add: weekday_def mod7)
qed

lemma sunday_ordinal:
  assumes "weekday dt = 6"
  shows "ordinal dt = 7 * (ordinal dt div 7)"
proof -
  obtain q r where qr: "ordinal dt + 6 = 7 * q + int r" "r < 7" "weekday dt = r"
    by (rule week_decomp)
  with assms have "ordinal dt = 7 * q" by linarith
  then show ?thesis by (simp add: mod7)
qed

lemma sunday_week:
  assumes "ordinal dt = 7 * q"
  shows "weekday dt = 6"
proof -
  have "ordinal dt + 6 = 7 * q + 6" using assms by simp
  then show ?thesis by (simp add: weekday_def mod7)
qed

lemma bin_label_is_label: "valid_timestamp t \<Longrightarrow> is_label f (bin_label f t)"
proof (cases f)
  case D
  assume "valid_timestamp t"
  then show ?thesis by (cases t) (simp add: D)
next
  case W
  assume "valid_timestamp t"
  then have v: "valid_date (date_of t)" by (rule valid_timestamp_date)
  obtain y m d where e: "(next_day ^^ (6 - weekday (date_of t))) (date_of t) = (y, m, d)"
    by (cases "(next_day ^^ (6 - weekday (date_of t))) (date_of t)")
  from week_label(1,3) [OF v] show ?thesis by (simp add: W e)
next
  case M
  obtain y m d h mi where t: "t = (y, m, d, h, mi)" by (cases t)
  assume "valid_timestamp t"
  then show ?thesis using days_in_month_bounds [of y m] by (simp add: M t)
qed

lemma bin_number_label:
  assumes "valid_timestamp t"
  shows "bin_number D (bin_label D t) = ordinal (date_of t)"
    and "bin_number W (bin_label W t) = (ordinal (date_of t) + 6) div 7"
    and "bin_number M (bin_label M t) = 12 * fst t + int (fst (snd t))"
proof -
  obtain y m d h mi where t: "t = (y, m, d, h, mi)" by (cases t)
  show "bin_number D (bin_label D t) = ordinal (date_of t)" by (simp add: t)
  show "bin_number M (bin_label M t) = 12 * fst t + int (fst (snd t))" by (simp add: t)
  from assms have v: "valid_date (date_of t)" by (rule valid_timestamp_date)
  obtain y' m' d' where e: "(next_day ^^ (6 - weekday (date_of t))) (date_of t) = (y', m', d')"
    by (cases "(next_day ^^ (6 - weekday (date_of t))) (date_of t)")
  have "bin_number W (bin_label W t)
      = ordinal ((next_day ^^ (6 - weekday (date_of t))) (date_of t)) div 7"
    by (simp add: e)
  also have "\<dots> = (ordinal (date_of t) + 6) div 7"
    unfolding week_label(2) [OF v] by (rule mod7)
  finally show "bin_number W (bin_label W t) = (ordinal (date_of t) + 6) div 7" .
qed


lemma midnight_date: "date_of (midnight dt) = dt"
  by (cases dt) simp

lemma is_label_midnight_iff:
  "is_label D (midnight dt) = valid_date dt"
  "is_label W (midnight dt) = (valid_date dt \<and> weekday dt = 6)"
  by (cases dt; simp)+

lemma next_label_is_label:
  assumes "is_label f l"
  shows "is_label f (next_label f l) \<and> bin_number f (next_label f l) = bin_number f l + 1"
proof (cases f)
  case D
  from assms have v: "valid_date (date_of l)" by (rule is_label_midnight [THEN conjunct1])
  show ?thesis
    by (simp add: D is_label_midnight_iff midnight_date next_day_valid [OF v] next_day_ordinal [OF v])
next
  case W
  from assms have v: "valid_date (date_of l)" by (rule is_label_midnight [THEN conjunct1])
  from assms W have w: "weekday (date_of l) = 6" by (cases l) simp
  let ?d = "(next_day ^^ 7) (date_of l)"
  from funpow_next_day [OF v, of 7]
  have v': "valid_date ?d" and o: "ordinal ?d = ordinal (date_of l) + 7" by simp_all
  define q where "q = ordinal (date_of l) div 7"
  have oq: "ordinal (date_of l) = 7 * q" unfolding q_def using w by (rule sunday_ordinal)
  then have o': "ordinal ?d = 7 * (q + 1)" using o by simp
  then have "weekday ?d = 6" by (rule sunday_week)
  moreover have "ordinal ?d div 7 = ordinal (date_of l) div 7 + 1"
    unfolding o' oq mod7 ..
  ultimately show ?thesis
    using v' by (simp add: W is_label_midnight_iff midnight_date)
next
  case M
  obtain y m d h mi where l: "l = (y, m, d, h, mi)" by (cases l)
  from assms have v: "1 \<le> y" "1 \<le> m" "m \<le> 12" by (simp_all add: M l)
  have b: "1 \<le> days_in_month y (m + 1)" "1 \<le> days_in_month (y + 1) 1"
    using days_in_month_bounds [of y "m + 1"] days_in_month_bounds [of "y + 1" 1] by linarith+
  show ?thesis
  proof (cases "m < 12")
    case True
    then show ?thesis using v b by (simp add: M l)
  next
    case False
    with v have "m = 12" by simp
    then show ?thesis using v b by (simp add: M l)
  qed
qed

lemma bin_number_inj:
  assumes "is_label f l" "is_label f l'" "bin_number f l = bin_number f l'"
  shows "l = l'"
proof (cases f)
  case D
  from assms(1,2) have v: "valid_date (date_of l)" "valid_date (date_of l')"
    and m: "l = midnight (date_of l)" "l' = midnight (date_of l')"
    by (simp_all add: is_label_midnight)
  from assms(3) D have "date_of l = date_of l'" using v by (simp add: ordinal_inj)
  with m show ?thesis by simp
next
  case W
  from assms(1,2) have v: "valid_date (date_of l)" "valid_date (date_of l')"
    and m: "l = midnight (date_of l)" "l' = midnight (date_of l')"
    by (simp_all add: is_label_midnight)
  from assms(1,2) W have w: "weekday (date_of l) = 6" "weekday (date_of l') = 6"
    by (cases l; cases l'; simp)+
  have "ordinal (date_of l) = 7 * (ordinal (date_of l) div 7)"
    "ordinal (date_of l') = 7 * (ordinal (date_of l') div 7)"
    by (rule sunday_ordinal [OF w(1)], rule sunday_ordinal [OF w(2)])
  with assms(3) W have "ordinal (date_of l) = ordinal (date_of l')" by simp
  then have "date_of l = date_of l'" using v by (simp add: ordinal_inj)
  with m show ?thesis by simp
next
  case M
  obtain y m d h mi where l: "l = (y, m, d, h, mi)" by (cases l)
  obtain y' m' d' h' mi' where l': "l' = (y', m', d', h', mi')" by (cases l')
  from assms(1) have v: "1 \<le> m" "m \<le> 12" "d = days_in_month y m" "h = 0" "mi = 0"
    by (simp_all add: M l)
  from assms(2) have v': "1 \<le> m'" "m' \<le> 12" "d' = days_in_month y' m'" "h' = 0" "mi' = 0"
    by (simp_all add: M l')
  from assms(3) have e: "12 * y + int m = 12 * y' + int m'" by (simp add: M l l')
  have "y = y'" using e v v' by linarith
  moreover then have "m = m'" using e by simp
  ultimately show ?thesis using v v' by (simp add: l l')
qed

lemma bin_number_mono:
  assumes "valid_timestamp t" "valid_timestamp t'" "t \<le> t'"
  shows "bin_number f (bin_label f t) \<le> bin_number f (bin_label f t')"
proof -
  from assms have v: "valid_date (date_of t)" "valid_date (date_of t')"
    by (simp_all add: valid_timestamp_date)
  from assms(3) have le: "date_of t \<le> date_of t'" by (rule timestamp_le_date)
  then have o: "ordinal (date_of t) \<le> ordinal (date_of t')"
    using ordinal_mono [OF v le] by blast
  show ?thesis
  proof (cases f)
    case D
    show ?thesis
      unfolding D bin_number_label(1) [OF assms(1)] bin_number_label(1) [OF assms(2)] by (rule o)
  next
    case W
    from o have "(ordinal (date_of t) + 6) div 7 \<le> (ordinal (date_of t') + 6) div 7"
      by (intro zdiv_mono1) simp_all
    then show ?thesis
      unfolding W bin_number_label(2) [OF assms(1)] bin_number_label(2) [OF assms(2)] .
  next
    case M
    obtain y m d h mi where t: "t = (y, m, d, h, mi)" by (cases t)
    obtain y' m' d' h' mi' where t': "t' = (y', m', d', h', mi')" by (cases t')
    from assms(1,2) have b: "1 \<le> m" "m \<le> 12" "1 \<le> m'" "m' \<le> 12" by (simp_all add: t t')
    from le have "y < y' \<or> y = y' \<and> (m < m' \<or> m = m' \<and> d \<le> d')"
      unfolding t t' date_of.simps date_le_cases .
    then have "y + 1 \<le> y' \<or> y = y' \<and> m \<le> m'" by linarith
    then have "12 * y + int m \<le> 12 * y' + int m'" using b by linarith
    then show ?thesis by (simp add: M t t')
  qed
qed

lemma count_labels_number:
  assumes "is_label f lo" "is_label f hi"
  shows "count_labels f lo hi = nat (bin_number f hi - bin_number f lo + 1)"
proof (cases f)
  case D
  then show ?thesis by simp
next
  case W
  from assms W have w: "weekday (date_of lo) = 6" "weekday (date_of hi) = 6"
    by (cases lo; cases hi; simp)+
  define a where "a = ordinal (date_of hi) div 7"
  define b where "b = ordinal (date_of lo) div 7"
  have "ordinal (date_of hi) = 7 * a" "ordinal (date_of lo) = 7 * b"
    unfolding a_def b_def by (rule sunday_ordinal [OF w(2)], rule sunday_ordinal [OF w(1)])
  then have "ordinal (date_of hi) - ordinal (date_of lo) = 7 * (a - b)" by simp
  then have "(ordinal (date_of hi) - ordinal (date_of lo)) div 7 = a - b"
    by (simp only: mod7)
  then show ?thesis by (simp add: W a_def b_def)
next
  case M
  obtain y m r where lo: "lo = (y, m, r)" by (cases lo)
  obtain y' m' d' h' mi' where hi: "hi = (y', m', d', h', mi')" by (cases hi)
  obtain d h mi where r: "r = (d, h, mi)" by (cases r)
  show ?thesis by (simp add: M lo hi r)
qed

lemma bin_label_in_bin:
  assumes "valid_timestamp t" "is_label f l"
  shows "bin_label f t = l \<longleftrightarrow> in_bin f l t"
proof (cases f)
  case D
  from assms(2) have "l = midnight (date_of l)" by (simp add: is_label_midnight)
  then show ?thesis by (metis D bin_label.simps(1) in_bin.simps(1) midnight_date)
next
  case W
  from assms(2) have m: "l = midnight (date_of l)" and vl: "valid_date (date_of l)"
    by (simp_all add: is_label_midnight)
  from assms(2) W have w: "weekday (date_of l) = 6" by (cases l) simp
  from assms(1) have v: "valid_date (date_of t)" by (rule valid_timestamp_date)
  let ?d = "(next_day ^^ (6 - weekday (date_of t))) (date_of t)"
  define p where "p = ordinal (date_of l) div 7"
  have ol: "ordinal (date_of l) = 7 * p" unfolding p_def using w by (rule sunday_ordinal)
  obtain q r where qr: "ordinal (date_of t) + 6 = 7 * q + int r" "r < 7"
    "(ordinal (date_of t) + 6) div 7 = q"
    by (rule week_decomp)
  have od: "ordinal ?d = 7 * q" using week_label(2) [OF v] qr(3) by simp
  have "bin_label W t = l \<longleftrightarrow> midnight ?d = midnight (date_of l)" using m by simp
  also have "\<dots> \<longleftrightarrow> ?d = date_of l" by (metis midnight_date)
  also have "\<dots> \<longleftrightarrow> ordinal ?d = ordinal (date_of l)"
    using ordinal_inj [OF week_label(1) [OF v] vl] by auto
  also have "\<dots> \<longleftrightarrow> q = p" unfolding od ol by simp
  also have "\<dots> \<longleftrightarrow> 7 * p - 6 \<le> ordinal (date_of t) \<and> ordinal (date_of t) \<le> 7 * p"
    using qr(1,2) by linarith
  finally show ?thesis by (simp add: W ol)
next
  case M
  obtain y m d h mi where l: "l = (y, m, d, h, mi)" by (cases l)
  obtain y' m' d' h' mi' where t: "t = (y', m', d', h', mi')" by (cases t)
  from assms(2) have "d = days_in_month y m" "h = 0" "mi = 0" by (simp_all add: M l)
  then show ?thesis by (auto simp: M l t)
qed


subsection \<open>The labels between two labels\<close>

lemma funpow_next_label:
  "is_label f lo \<Longrightarrow>
     is_label f ((next_label f ^^ k) lo)
     \<and> bin_number f ((next_label f ^^ k) lo) = bin_number f lo + int k"
proof (induction k)
  case 0
  then show ?case by simp
next
  case (Suc k)
  from next_label_is_label [OF Suc.IH [OF Suc.prems, THEN conjunct1]] Suc.IH [OF Suc.prems]
  show ?case by simp
qed

lemma bin_labels_nth:
  "k < count_labels f lo hi \<Longrightarrow> bin_labels f lo hi ! k = (next_label f ^^ k) lo"
  by (simp add: bin_labels_def)

lemma bin_labels_length: "length (bin_labels f lo hi) = count_labels f lo hi"
  by (simp add: bin_labels_def)

lemma bin_labels_set:
  assumes "is_label f lo" "is_label f hi"
  shows "set (bin_labels f lo hi)
     = {l. is_label f l \<and> bin_number f lo \<le> bin_number f l \<and> bin_number f l \<le> bin_number f hi}"
proof (intro set_eqI iffI)
  fix l assume "l \<in> set (bin_labels f lo hi)"
  then obtain k where k: "k < count_labels f lo hi" "l = (next_label f ^^ k) lo"
    by (auto simp: bin_labels_def)
  from k(1) have "int k \<le> bin_number f hi - bin_number f lo"
    unfolding count_labels_number [OF assms] by linarith
  with funpow_next_label [OF assms(1), of k] k(2)
  show "l \<in> {l. is_label f l \<and> bin_number f lo \<le> bin_number f l \<and> bin_number f l \<le> bin_number f hi}"
    by simp
next
  fix l
  assume "l \<in> {l. is_label f l \<and> bin_number f lo \<le> bin_number f l \<and> bin_number f l \<le> bin_number f hi}"
  then have l: "is_label f l" "bin_number f lo \<le> bin_number f l" "bin_number f l \<le> bin_number f hi"
    by simp_all
  define k where "k = nat (bin_number f l - bin_number f lo)"
  have kc: "k < count_labels f lo hi"
    unfolding count_labels_number [OF assms] k_def using l(2,3) by linarith
  have "bin_number f ((next_label f ^^ k) lo) = bin_number f l"
    using funpow_next_label [OF assms(1), of k] l(2) by (simp add: k_def)
  then have "(next_label f ^^ k) lo = l"
    by (rule bin_number_inj [OF funpow_next_label [OF assms(1), THEN conjunct1] l(1)])
  with kc show "l \<in> set (bin_labels f lo hi)"
    unfolding bin_labels_def by (metis (no_types, lifting) atLeast0LessThan image_eqI lessThan_iff set_map set_upt)
qed

lemma bin_labels_distinct:
  assumes "is_label f lo"
  shows "distinct (bin_labels f lo hi)"
proof -
  have "inj_on (\<lambda>k. (next_label f ^^ k) lo) (set [0..<count_labels f lo hi])"
  proof (rule inj_onI)
    fix i j assume "(next_label f ^^ i) lo = (next_label f ^^ j) lo"
    then have "bin_number f ((next_label f ^^ i) lo) = bin_number f ((next_label f ^^ j) lo)"
      by simp
    then show "i = j"
      using funpow_next_label [OF assms, of i] funpow_next_label [OF assms, of j] by simp
  qed
  then show ?thesis by (simp add: bin_labels_def distinct_map)
qed

lemma bin_labels_step:
  assumes "Suc k < length (bin_labels f lo hi)"
  shows "bin_labels f lo hi ! Suc k = next_label f (bin_labels f lo hi ! k)"
  using assms by (simp add: bin_labels_def)

subsection \<open>Resampling\<close>

lemma labelled_set: "set [(t, v). (Some t, v) \<leftarrow> s] = {(t, v). (Some t, v) \<in> set s}"
  by (induction s) (auto split: option.splits)

lemma labelled_fst: "set (map fst [(t, v). (Some t, v) \<leftarrow> s]) = {t. Some t \<in> fst ` set s}"
  unfolding set_map labelled_set by force

lemma labelled_empty: "[(t, v). (Some t, v) \<leftarrow> s] = [] \<longleftrightarrow> (\<forall>t. Some t \<notin> fst ` set s)"
proof -
  have "[(t, v). (Some t, v) \<leftarrow> s] = [] \<longleftrightarrow> set [(t, v). (Some t, v) \<leftarrow> s] = {}"
    by (simp only: set_empty)
  also have "\<dots> \<longleftrightarrow> (\<forall>t v. (Some t, v) \<notin> set s)"
    unfolding labelled_set by auto
  also have "\<dots> \<longleftrightarrow> (\<forall>t. Some t \<notin> fst ` set s)"
    by force
  finally show ?thesis .
qed

lemma labelled_values:
  "[v. (t, v) \<leftarrow> [(t, v). (Some t, v) \<leftarrow> s], P t]
     = map snd [x \<leftarrow> s. case fst x of None \<Rightarrow> False | Some t \<Rightarrow> P t]"
  by (induction s) (auto split: option.splits)

lemma resample_sum_entries:
  fixes s :: "(timestamp option \<times> real option) list"
  assumes valid: "\<forall>t. Some t \<in> fst ` set s \<longrightarrow> valid_timestamp t"
    and ne: "Some t0 \<in> fst ` set s"
  defines "T \<equiv> {t. Some t \<in> fst ` set s}"
  shows "distinct (map fst (resample_sum ty f s))"
    and "set (map fst (resample_sum ty f s))
          = {l. is_label f l \<and> bin_number f (bin_label f (Min T)) \<le> bin_number f l
                \<and> bin_number f l \<le> bin_number f (bin_label f (Max T))}"
    and "l \<in> set (map fst (resample_sum ty f s)) \<Longrightarrow>
          map_of (resample_sum ty f s) l
            = Some (sum_skipna ty (map snd
                [x \<leftarrow> s. case fst x of None \<Rightarrow> False | Some t \<Rightarrow> in_bin f l t]))"
    and "Min T \<in> T \<and> Max T \<in> T \<and> (\<forall>t \<in> T. Min T \<le> t \<and> t \<le> Max T)"
proof -
  let ?lab = "[(t, v). (Some t, v) \<leftarrow> s]"
  have T: "set (map fst ?lab) = T" unfolding T_def by (rule labelled_fst)
  have "t0 \<in> T" using ne by (simp add: T_def)
  then have fin: "finite T" "T \<noteq> {}" using T by (metis List.finite_set, blast)
  show mm: "Min T \<in> T \<and> Max T \<in> T \<and> (\<forall>t \<in> T. Min T \<le> t \<and> t \<le> Max T)"
    using fin by (simp add: Min_in Max_in)
  have nonempty: "?lab \<noteq> []" unfolding labelled_empty using ne by blast
  let ?lo = "bin_label f (Min T)" and ?hi = "bin_label f (Max T)"
  have v: "valid_timestamp (Min T)" "valid_timestamp (Max T)"
    using mm valid unfolding T_def by blast+
  have lo: "is_label f ?lo" and hi: "is_label f ?hi"
    using v by (simp_all add: bin_label_is_label)
  have r: "resample_sum ty f s =
      map (\<lambda>l. (l, sum_skipna ty [v. (t, v) \<leftarrow> ?lab, bin_label f t = l])) (bin_labels f ?lo ?hi)"
    unfolding resample_sum_def Let_def T by (simp only: nonempty if_False)
  have keys: "map fst (resample_sum ty f s) = bin_labels f ?lo ?hi"
    unfolding r by (simp add: comp_def)
  show "distinct (map fst (resample_sum ty f s))"
    unfolding keys using lo by (rule bin_labels_distinct)
  show "set (map fst (resample_sum ty f s))
          = {l. is_label f l \<and> bin_number f ?lo \<le> bin_number f l \<and> bin_number f l \<le> bin_number f ?hi}"
    unfolding keys using lo hi by (rule bin_labels_set)
  show "map_of (resample_sum ty f s) l
            = Some (sum_skipna ty (map snd
                [x \<leftarrow> s. case fst x of None \<Rightarrow> False | Some t \<Rightarrow> in_bin f l t]))"
    if "l \<in> set (map fst (resample_sum ty f s))"
  proof -
    from that have l: "l \<in> set (bin_labels f ?lo ?hi)" unfolding keys .
    then have il: "is_label f l" using bin_labels_set [OF lo hi] by simp
    have "[x \<leftarrow> s. case fst x of None \<Rightarrow> False | Some t \<Rightarrow> bin_label f t = l]
        = [x \<leftarrow> s. case fst x of None \<Rightarrow> False | Some t \<Rightarrow> in_bin f l t]"
    proof (rule filter_cong [OF refl])
      fix x assume "x \<in> set s"
      show "(case fst x of None \<Rightarrow> False | Some t \<Rightarrow> bin_label f t = l)
          = (case fst x of None \<Rightarrow> False | Some t \<Rightarrow> in_bin f l t)"
      proof (cases "fst x")
        case None
        then show ?thesis by simp
      next
        case (Some t)
        with \<open>x \<in> set s\<close> have "Some t \<in> fst ` set s" by force
        with valid have "valid_timestamp t" by blast
        from bin_label_in_bin [OF this il] show ?thesis by (simp only: Some option.case)
      qed
    qed
    then have "sum_skipna ty [v. (t, v) \<leftarrow> ?lab, bin_label f t = l]
        = sum_skipna ty (map snd [x \<leftarrow> s. case fst x of None \<Rightarrow> False | Some t \<Rightarrow> in_bin f l t])"
      unfolding labelled_values by (rule arg_cong)
    moreover have "map_of (map (\<lambda>l. (l, g l)) ls) l = Some (g l)" if "l \<in> set ls"
      for g :: "timestamp \<Rightarrow> real" and ls
      using that by (simp add: map_of_map_restrict)
    ultimately show ?thesis
      unfolding r using l by (simp only:)
  qed
qed

lemma resample_sum_empty:
  "(\<forall>t. Some t \<notin> fst ` set s) \<Longrightarrow> resample_sum ty f s = []"
  unfolding resample_sum_def Let_def labelled_empty by simp

subsection \<open>Resampling a column of a table\<close>

lemma valid_index_iff: "valid_index df \<longleftrightarrow> (\<forall>t. Some t \<in> set (index df) \<longrightarrow> valid_timestamp t)"
  unfolding valid_index_def list_all_iff
  by (metis option.case(2) option.exhaust option.simps(4))

lemma series_fst: "fst ` set (series df c) = set (index df)"
  by (force simp: series_def index_def)

lemma series_in_bin:
  "map snd [x \<leftarrow> series df c. case fst x of None \<Rightarrow> False | Some t \<Rightarrow> P t]
     = map (col_value c) [r \<leftarrow> rows df. case DATE_TIME r of None \<Rightarrow> False | Some t \<Rightarrow> P t]"
  by (simp add: series_def filter_map comp_def)

lemma df_resampled_keys:
  assumes "valid_index df" "l \<in> fst ` set (df_resampled f df c)"
  shows "is_label f l \<and>
     (\<exists>t1 t2. Some t1 \<in> set (index df) \<and> Some t2 \<in> set (index df)
        \<and> bin_number f (bin_label f t1) \<le> bin_number f l
        \<and> bin_number f l \<le> bin_number f (bin_label f t2))"
proof -
  let ?s = "series df c"
  let ?T = "{t. Some t \<in> fst ` set ?s}"
  from assms(1) have v: "\<forall>t. Some t \<in> fst ` set ?s \<longrightarrow> valid_timestamp t"
    unfolding valid_index_iff series_fst .
  have "\<exists>t0. Some t0 \<in> fst ` set ?s"
  proof (rule ccontr)
    assume "\<not> (\<exists>t0. Some t0 \<in> fst ` set ?s)"
    then have "resample_sum (col_dtype df c) f ?s = []" by (intro resample_sum_empty) blast
    with assms(2) show False by (simp add: df_resampled_def)
  qed
  then obtain t0 where t0: "Some t0 \<in> fst ` set ?s" ..
  from assms(2) have l: "l \<in> set (map fst (resample_sum (col_dtype df c) f ?s))" by (simp add: df_resampled_def)
  from resample_sum_entries(2) [OF v t0, where f = f] l
  have "is_label f l" "bin_number f (bin_label f (Min ?T)) \<le> bin_number f l"
    "bin_number f l \<le> bin_number f (bin_label f (Max ?T))"
    by blast+
  moreover from resample_sum_entries(4) [OF v t0]
  have "Some (Min ?T) \<in> set (index df)" "Some (Max ?T) \<in> set (index df)"
    unfolding series_fst by blast+
  ultimately show ?thesis by blast
qed

lemma df_resampled_lookup:
  assumes "valid_index df" "Some t1 \<in> set (index df)" "Some t2 \<in> set (index df)"
    and "is_label f l" "bin_number f (bin_label f t1) \<le> bin_number f l"
      "bin_number f l \<le> bin_number f (bin_label f t2)"
  shows "l \<in> fst ` set (df_resampled f df c)"
    and "map_of (df_resampled f df c) l
      = Some (sum_skipna (col_dtype df c) (map (col_value c)
          [r \<leftarrow> rows df. case DATE_TIME r of None \<Rightarrow> False | Some t \<Rightarrow> in_bin f l t]))"
proof -
  let ?s = "series df c"
  let ?T = "{t. Some t \<in> fst ` set ?s}"
  from assms(1) have v: "\<forall>t. Some t \<in> fst ` set ?s \<longrightarrow> valid_timestamp t"
    unfolding valid_index_iff series_fst .
  from assms(2,3) have t: "Some t1 \<in> fst ` set ?s" "Some t2 \<in> fst ` set ?s"
    unfolding series_fst .
  note e = resample_sum_entries [OF v t(1)]
  from e(4) t have mm: "Min ?T \<le> t1" "t2 \<le> Max ?T" "Some (Min ?T) \<in> fst ` set ?s"
    "Some (Max ?T) \<in> fst ` set ?s"
    by blast+
  have vt: "valid_timestamp t1" "valid_timestamp t2" "valid_timestamp (Min ?T)"
    "valid_timestamp (Max ?T)"
    using v t mm(3,4) by blast+
  have "bin_number f (bin_label f (Min ?T)) \<le> bin_number f (bin_label f t1)"
    using vt(3,1) mm(1) by (rule bin_number_mono)
  moreover have "bin_number f (bin_label f t2) \<le> bin_number f (bin_label f (Max ?T))"
    using vt(2,4) mm(2) by (rule bin_number_mono)
  ultimately have "bin_number f (bin_label f (Min ?T)) \<le> bin_number f l"
    "bin_number f l \<le> bin_number f (bin_label f (Max ?T))"
    using assms(5,6) by linarith+
  with assms(4) have l: "l \<in> set (map fst (resample_sum (col_dtype df c) f ?s))"
    unfolding e(2) by blast
  then show "l \<in> fst ` set (df_resampled f df c)" by (simp add: df_resampled_def)
  from e(3) [OF l] show "map_of (df_resampled f df c) l
      = Some (sum_skipna (col_dtype df c) (map (col_value c)
          [r \<leftarrow> rows df. case DATE_TIME r of None \<Rightarrow> False | Some t \<Rightarrow> in_bin f l t]))"
    unfolding df_resampled_def series_in_bin .
qed

lemma df_resampled_distinct:
  assumes "valid_index df"
  shows "distinct (map fst (df_resampled f df c))"
proof (cases "\<exists>t0. Some t0 \<in> fst ` set (series df c)")
  case True
  then obtain t0 where t0: "Some t0 \<in> fst ` set (series df c)" ..
  from assms have v: "\<forall>t. Some t \<in> fst ` set (series df c) \<longrightarrow> valid_timestamp t"
    unfolding valid_index_iff series_fst .
  from resample_sum_entries(1) [OF v t0, where f = f] show ?thesis by (simp add: df_resampled_def)
next
  case False
  then have "resample_sum (col_dtype df c) f (series df c) = []" by (intro resample_sum_empty) blast
  then show ?thesis by (simp add: df_resampled_def)
qed

lemma sum_skipna_Nil: "sum_skipna ty [] = 0"
  by (cases ty) (simp_all add: sum_skipna_def wrap_int64_def)










lemma to_datetime_cell_sound: "to_datetime_cell x = Some t \<Longrightarrow> valid_timestamp t"
  by (cases x) (simp_all add: to_datetime_sound)

lemma load_valid_index:
  assumes "load_and_process_data src = (None, df)"
  shows "valid_index df"
proof -
  from assms obtain cols rs where df: "rows df = map (\<lambda>r. process_row (rename r)) rs"
    using load_cases [of src] by auto
  have "valid_timestamp t" if "Some t \<in> set (index df)" for t
  proof -
    from that obtain r where "DATE_TIME (process_row (rename r)) = Some t"
      unfolding index_def df by auto
    then show ?thesis
      unfolding process_row_cells(1)
      by (cases "map_of (rename r) ''DATE_TIME''") (simp_all add: to_datetime_cell_sound)
  qed
  then show ?thesis unfolding valid_index_iff by blast
qed

lemma loc_slice_valid_index:
  assumes "valid_index df" "loc_slice df s e = Inr df'"
  shows "valid_index df'"
proof -
  from assms(2) obtain i j where "rows df' = take j (drop i (rows df))"
    by (auto simp: loc_slice_def split: sum.splits)
  then have "set (index df') \<subseteq> set (index df)"
    unfolding index_def by (auto dest!: in_set_takeD in_set_dropD)
  with assms(1) show ?thesis unfolding valid_index_iff by blast
qed




text \<open>
  A table with rows on 1 and 3 June only: the daily series has an entry for 2 June,
  with the value 0.
\<close>

theorem resample_zero_fills_counterexample:
  "df_resampled D
     \<lparr>columns = [(''SystemProduction'', Numeric), (''DATE'', Object), (''HOUR'', Numeric)],
      rows = [\<lparr>DATE_TIME = Some (2020, 6, 1, 10, 0),
               cells = [(''SystemProduction'', Num 1), (''DATE'', DateV (2020, 6, 1)), (''HOUR'', Num 10)]\<rparr>,
              \<lparr>DATE_TIME = Some (2020, 6, 3, 10, 0),
               cells = [(''SystemProduction'', Num 2), (''DATE'', DateV (2020, 6, 3)), (''HOUR'', Num 10)]\<rparr>]\<rparr>
     ''SystemProduction''
   = [((2020, 6, 1, 0, 0), 1), ((2020, 6, 2, 0, 0), 0), ((2020, 6, 3, 0, 0), 2)]"
  by code_simp

text \<open>
  C1 (amended). For each of the three rules the series has one entry for every period
  (day, week Monday to Sunday, month) from the period of some row to the period of some
  other row, hence for every period from the earliest to the latest, and no other
  entry; the entry of a period into which no row falls has the value 0.
\<close>

theorem resample_zero_fills:
  "valid_index df \<longrightarrow>
     distinct (map fst (df_resampled f df c))
     \<and> (Some t1 \<in> set (index df) \<and> Some t2 \<in> set (index df) \<and> is_label f l
          \<and> bin_number f (bin_label f t1) \<le> bin_number f l
          \<and> bin_number f l \<le> bin_number f (bin_label f t2) \<longrightarrow>
        l \<in> fst ` set (df_resampled f df c)
        \<and> ((\<forall>t. Some t \<in> set (index df) \<longrightarrow> \<not> in_bin f l t) \<longrightarrow>
             (l, 0) \<in> set (df_resampled f df c)))
     \<and> (l \<in> fst ` set (df_resampled f df c) \<longrightarrow>
          is_label f l
          \<and> (\<exists>t1 t2. Some t1 \<in> set (index df) \<and> Some t2 \<in> set (index df)
                \<and> bin_number f (bin_label f t1) \<le> bin_number f l
                \<and> bin_number f l \<le> bin_number f (bin_label f t2)))"
proof (intro impI conjI)
  assume v: "valid_index df"
  show "distinct (map fst (df_resampled f df c))" using v by (rule df_resampled_distinct)
  show "is_label f l" if "l \<in> fst ` set (df_resampled f df c)"
    using df_resampled_keys [OF v that] by blast
  show "\<exists>t1 t2. Some t1 \<in> set (index df) \<and> Some t2 \<in> set (index df)
                \<and> bin_number f (bin_label f t1) \<le> bin_number f l
                \<and> bin_number f l \<le> bin_number f (bin_label f t2)"
    if "l \<in> fst ` set (df_resampled f df c)"
    using df_resampled_keys [OF v that] by blast
  assume a: "Some t1 \<in> set (index df) \<and> Some t2 \<in> set (index df) \<and> is_label f l
          \<and> bin_number f (bin_label f t1) \<le> bin_number f l
          \<and> bin_number f l \<le> bin_number f (bin_label f t2)"
  then have h: "Some t1 \<in> set (index df)" "Some t2 \<in> set (index df)" "is_label f l"
    "bin_number f (bin_label f t1) \<le> bin_number f l"
    "bin_number f l \<le> bin_number f (bin_label f t2)"
    by blast+
  show "l \<in> fst ` set (df_resampled f df c)"
    using v h by (rule df_resampled_lookup(1))
  assume none: "\<forall>t. Some t \<in> set (index df) \<longrightarrow> \<not> in_bin f l t"
  have "[r \<leftarrow> rows df. case DATE_TIME r of None \<Rightarrow> False | Some t \<Rightarrow> in_bin f l t] = []"
    unfolding filter_empty_conv
  proof
    fix r assume "r \<in> set (rows df)"
    then have "DATE_TIME r \<in> set (index df)" by (simp add: index_def)
    with none show "\<not> (case DATE_TIME r of None \<Rightarrow> False | Some t \<Rightarrow> in_bin f l t)"
      by (cases "DATE_TIME r") auto
  qed
  with df_resampled_lookup(2) [OF v h, of c]
  have "map_of (df_resampled f df c) l = Some 0" by (simp add: sum_skipna_Nil)
  then show "(l, 0) \<in> set (df_resampled f df c)" by (rule map_of_SomeD)
qed

theorem resample_zero_fills_witness:
  "((2020, 6, 2, 0, 0), 0) \<in> set (df_resampled D
     \<lparr>columns = [(''SystemProduction'', Numeric), (''DATE'', Object), (''HOUR'', Numeric)],
      rows = [\<lparr>DATE_TIME = Some (2020, 6, 1, 10, 0),
               cells = [(''SystemProduction'', Num 1), (''DATE'', DateV (2020, 6, 1)), (''HOUR'', Num 10)]\<rparr>,
              \<lparr>DATE_TIME = Some (2020, 6, 3, 10, 0),
               cells = [(''SystemProduction'', Num 2), (''DATE'', DateV (2020, 6, 3)), (''HOUR'', Num 10)]\<rparr>]\<rparr>
     ''SystemProduction'')"
proof -
  let ?df = "\<lparr>columns = [(''SystemProduction'', Numeric), (''DATE'', Object), (''HOUR'', Numeric)],
      rows = [\<lparr>DATE_TIME = Some (2020, 6, 1, 10, 0),
               cells = [(''SystemProduction'', Num 1), (''DATE'', DateV (2020, 6, 1)), (''HOUR'', Num 10)]\<rparr>,
              \<lparr>DATE_TIME = Some (2020, 6, 3, 10, 0),
               cells = [(''SystemProduction'', Num 2), (''DATE'', DateV (2020, 6, 3)), (''HOUR'', Num 10)]\<rparr>]\<rparr>"
  let ?l = "(2020, 6, 2, 0, 0) :: timestamp"
  let ?t1 = "(2020, 6, 1, 10, 0) :: timestamp"
  let ?t2 = "(2020, 6, 3, 10, 0) :: timestamp"
  have v: "valid_index ?df" by code_simp
  have i: "Some ?t1 \<in> set (index ?df)" "Some ?t2 \<in> set (index ?df)"
    by (simp_all add: index_def)
  have l: "is_label D ?l" "bin_number D (bin_label D ?t1) \<le> bin_number D ?l"
    "bin_number D ?l \<le> bin_number D (bin_label D ?t2)"
    by code_simp+
  have n: "\<forall>t. Some t \<in> set (index ?df) \<longrightarrow> \<not> in_bin D ?l t"
    by (simp add: index_def)
  from resample_zero_fills [of ?df D "''SystemProduction''" ?t1 ?t2 ?l] v i l n
  show ?thesis by blast
qed




end
